theory Spec2Isabelle
  imports Main "HOL-Library.Word" "HOL-Library.Signed_Division" "HOL-Library.Sublist"
begin

unbundle bit_operations_syntax

section \<open>Data model of doublebuffer/main.cpp\<close>

text \<open>
  \<^verbatim>\<open>static const int BUFFER_COUNT = 2;\<close> and the \<^verbatim>\<open>MAP_FAILED\<close> sentinel of
  \<^verbatim>\<open>sys/mman.h\<close>, which is \<^verbatim>\<open>(void *) -1\<close>: a pointer is a 64-bit word.
\<close>

definition BUFFER_COUNT :: int where
  "BUFFER_COUNT = 2"

definition MAP_FAILED :: "64 word" where
  "MAP_FAILED = - 1"

text \<open>\<^verbatim>\<open>struct Framebuffer\<close>; its constructor gives \<open>Framebuffer0\<close>.\<close>

record Framebuffer =
  handle :: "32 word"
  pitch :: "32 word"
  size :: "64 word"
  fb :: "32 word"
  p :: "64 word"

definition Framebuffer0 :: Framebuffer where
  "Framebuffer0 = \<lparr>handle = 0, pitch = 0, size = 0, fb = 0, p = MAP_FAILED\<rparr>"

text \<open>
  The fields of Qt's \<^verbatim>\<open>QKmsOutput\<close> that the program reads or writes. The selected mode
  \<^verbatim>\<open>modes[mode]\<close> is kept as its two dimensions (\<^verbatim>\<open>uint16_t\<close> in \<^verbatim>\<open>drmModeModeInfo\<close>).
\<close>

record QKmsOutput =
  crtc_id :: "32 word"
  connector_id :: "32 word"
  hdisplay :: "16 word"
  vdisplay :: "16 word"
  mode_set :: bool

text \<open>
  \<^verbatim>\<open>struct Output\<close>. The array \<^verbatim>\<open>Framebuffer fb[2]\<close> is a list, called \<open>fbs\<close> because the
  framebuffer has a field \<open>fb\<close> of its own; \<^verbatim>\<open>int backFb\<close> is an \<open>int\<close>.
\<close>

record Output =
  kmsOutput :: QKmsOutput
  fbs :: "Framebuffer list"
  backFb :: int
  flipped :: bool

definition Output0 :: "QKmsOutput \<Rightarrow> Output" where
  "Output0 k = \<lparr>kmsOutput = k, fbs = [Framebuffer0, Framebuffer0], backFb = 0, flipped = False\<rparr>"

subsection \<open>The kernel and the log of what the process does\<close>

text \<open>
  Every call into the kernel, every callback from it and every warning is appended to a
  log. A pointer to an element of \<^verbatim>\<open>m_outputs\<close> (the \<^verbatim>\<open>user_data\<close> of a page flip) is
  the element's index.
\<close>

datatype action =
    Warning string
  | OpenDevice bool
  | GetCap bool
  | CloseDevice
  | CreateDumb "32 word" "32 word"
  | AddFB "32 word" "32 word" "32 word" "32 word"
  | MapDumb "32 word"
  | Mmap "64 word" "64 word"
  | Memset "64 word" "64 word"
  | Munmap "64 word" "64 word"
  | RmFB "32 word" bool
  | DestroyDumb "32 word" bool
  | SetCrtc "32 word" "32 word" "32 word" bool
  | SetPowerOn nat
  | Cleanup nat
  | Fill "64 word" "64 word" "32 word"
  | HandleEvent
  | FlipEvent nat
  | PageFlip "32 word" "32 word" nat bool

type_synonym log = "action list"

text \<open>
  The kernel and libdrm are outside the program: the result of each call is an arbitrary
  function of everything that happened before it.
  \<^item> \<^verbatim>\<open>qt_safe_open\<close>, \<^verbatim>\<open>drmGetCap\<close> and \<^verbatim>\<open>drmIoctl\<close> return \<^verbatim>\<open>-1\<close> when they fail: \<open>False\<close>
    and \<open>None\<close> are that return. \<open>k_mmap\<close> gives the address or \<open>MAP_FAILED\<close>.
  \<^item> \<^verbatim>\<open>drmModeAddFB\<close>, \<^verbatim>\<open>drmModeRmFB\<close>, \<^verbatim>\<open>drmModeSetCrtc\<close> and \<^verbatim>\<open>drmModePageFlip\<close>
    return 0 when the kernel accepts the request and the negated \<^verbatim>\<open>errno\<close> when it refuses
    it: the oracle gives the returned \<^verbatim>\<open>int\<close>. \<open>k_add_fb\<close> gives the id as well, which
    \<^verbatim>\<open>drmModeAddFB\<close> stores through its last argument only when it returns 0.
  In the log, the flag of \<open>RmFB\<close>, \<open>SetCrtc\<close> and \<open>PageFlip\<close> says whether the kernel
  accepted the request (the call returned 0).
\<close>

record kernel =
  k_open :: bool
  k_dumb_cap :: bool
  k_create_dumb :: "log \<Rightarrow> (32 word \<times> 32 word \<times> 64 word) option"
  k_add_fb :: "log \<Rightarrow> int \<times> 32 word"
  k_map_dumb :: "log \<Rightarrow> 64 word option"
  k_mmap :: "log \<Rightarrow> 64 word"
  k_rm_fb :: "log \<Rightarrow> int"
  k_destroy_dumb :: "log \<Rightarrow> bool"
  k_set_crtc :: "log \<Rightarrow> int"
  k_page_flip :: "log \<Rightarrow> int"

text \<open>
  The state of the process: the outputs of the \<^verbatim>\<open>Device\<close>, the three colour counters
  of the \<^verbatim>\<open>DumbBufferRenderer\<close>, the log, the batches of page-flip events that the
  DRM file descriptor will still deliver, one batch for each \<^verbatim>\<open>drmHandleEvent\<close> that
  reads it, and whether \<^verbatim>\<open>fd()\<close> is a descriptor (not \<^verbatim>\<open>-1\<close>). When no batch is left, a
  read of the descriptor blocks forever.
\<close>

record world =
  m_outputs :: "Output list"
  m_r :: "32 word"
  m_g :: "32 word"
  m_b :: "32 word"
  trace :: log
  pending :: "nat list list"
  fd_valid :: bool

text \<open>A call either returns, or blocks forever in the state it has reached.\<close>

datatype 'a run = Done 'a | Hang world

fun run_bind :: "'a run \<Rightarrow> ('a \<Rightarrow> 'b run) \<Rightarrow> 'b run" where
  "run_bind (Done x) f = f x"
| "run_bind (Hang s) f = Hang s"

fun last_world :: "world run \<Rightarrow> world" where
  "last_world (Done s) = s"
| "last_world (Hang s) = s"

definition emit :: "action list \<Rightarrow> world \<Rightarrow> world" where
  "emit as s = s\<lparr>trace := trace s @ as\<rparr>"

section \<open>Flip coordinator\<close>

text \<open>
  \<^verbatim>\<open>Device::pageFlipHandler\<close>: \<^verbatim>\<open>output->backFb = (output->backFb + 1) % BUFFER_COUNT\<close>,
  with the truncating remainder of C++. The kernel hands back the \<^verbatim>\<open>user_data\<close> of a
  request, which is the address of an element of \<^verbatim>\<open>m_outputs\<close>; an index that names
  no element changes nothing.
\<close>

definition pageFlipHandler :: "nat \<Rightarrow> world \<Rightarrow> world" where
  "pageFlipHandler user_data s =
     (if user_data < length (m_outputs s)
      then (let output = m_outputs s ! user_data
            in emit [FlipEvent user_data]
                 (s\<lparr>m_outputs := (m_outputs s)
                        [user_data := output\<lparr>backFb := (backFb output + 1) smod BUFFER_COUNT\<rparr>]\<rparr>))
      else s)"

text \<open>
  \<^verbatim>\<open>drmHandleEvent\<close> reads what is there to read and calls the handler once for each
  page-flip event of the batch, in order.
\<close>

definition drmHandleEvent :: "nat list \<Rightarrow> world \<Rightarrow> world" where
  "drmHandleEvent batch s = fold pageFlipHandler batch (emit [HandleEvent] s)"

text \<open>
  The loop \<^verbatim>\<open>while (output->backFb == fbIdx) drmHandleEvent(...)\<close> of
  \<^verbatim>\<open>Device::swapBuffers\<close>, over the batches still to come.
\<close>

fun wait_flip :: "nat \<Rightarrow> int \<Rightarrow> nat list list \<Rightarrow> world \<Rightarrow> world run" where
  "wait_flip output fbIdx [] s =
     (if backFb (m_outputs s ! output) = fbIdx
      then Hang (s\<lparr>pending := []\<rparr>)
      else Done (s\<lparr>pending := []\<rparr>))"
| "wait_flip output fbIdx (batch # rest) s =
     (if backFb (m_outputs s ! output) = fbIdx
      then wait_flip output fbIdx rest (drmHandleEvent batch s)
      else Done (s\<lparr>pending := batch # rest\<rparr>))"

text \<open>
  The call of \<^verbatim>\<open>drmModePageFlip\<close> that ends \<^verbatim>\<open>Device::swapBuffers\<close>, with its test
  \<^verbatim>\<open>== -1\<close> of the returned value.
\<close>

definition page_flip :: "kernel \<Rightarrow> nat \<Rightarrow> world \<Rightarrow> world" where
  "page_flip K output s =
     (let out = m_outputs s ! output;
          f = fbs out ! nat (backFb out);
          ret = k_page_flip K (trace s)
      in if ret = - 1
         then emit [PageFlip (crtc_id (kmsOutput out)) (fb f) output False,
                    Warning ''Page flip failed''] s
         else emit [PageFlip (crtc_id (kmsOutput out)) (fb f) output (ret = 0)] s)"

text \<open>\<^verbatim>\<open>Device::swapBuffers\<close>.\<close>

definition swapBuffers :: "kernel \<Rightarrow> nat \<Rightarrow> world \<Rightarrow> world run" where
  "swapBuffers K output s =
     run_bind
       (if flipped (m_outputs s ! output)
        then wait_flip output (backFb (m_outputs s ! output)) (pending s) s
        else Done (s\<lparr>m_outputs := (m_outputs s)[output := (m_outputs s ! output)\<lparr>flipped := True\<rparr>]\<rparr>))
       (\<lambda>s'. Done (page_flip K output s'))"

section \<open>Buffer allocator\<close>

text \<open>The reference \<^verbatim>\<open>output->fb[bufferIdx]\<close>, read and written.\<close>

definition get_fb :: "nat \<Rightarrow> nat \<Rightarrow> world \<Rightarrow> Framebuffer" where
  "get_fb output bufferIdx s = fbs (m_outputs s ! output) ! bufferIdx"

definition set_fb :: "nat \<Rightarrow> nat \<Rightarrow> Framebuffer \<Rightarrow> world \<Rightarrow> world" where
  "set_fb output bufferIdx f s =
     s\<lparr>m_outputs := (m_outputs s)
          [output := (m_outputs s ! output)\<lparr>fbs := (fbs (m_outputs s ! output))[bufferIdx := f]\<rparr>]\<rparr>"

text \<open>
  \<^verbatim>\<open>Device::createFramebuffer\<close>. Each step writes the fields it has obtained into the
  framebuffer before the next step is tried, and a failing step returns \<^verbatim>\<open>false\<close> at once.
  \<^verbatim>\<open>drmModeAddFB\<close> stores the id only when it returns 0, and the code takes it to have
  failed only when it returns \<^verbatim>\<open>-1\<close>.
\<close>

definition createFramebuffer :: "kernel \<Rightarrow> nat \<Rightarrow> nat \<Rightarrow> world \<Rightarrow> bool \<times> world" where
  "createFramebuffer K output bufferIdx s =
     (let k = kmsOutput (m_outputs s ! output);
          w = (ucast (hdisplay k) :: 32 word);
          h = (ucast (vdisplay k) :: 32 word)
      in case k_create_dumb K (trace s) of
           None \<Rightarrow> (False, emit [CreateDumb h w, Warning ''Failed to create dumb buffer''] s)
         | Some (creq_handle, creq_pitch, creq_size) \<Rightarrow>
            (let f1 = (get_fb output bufferIdx s)
                        \<lparr>handle := creq_handle, pitch := creq_pitch, size := creq_size\<rparr>;
                 s1 = set_fb output bufferIdx f1 (emit [CreateDumb h w] s);
                 ret = fst (k_add_fb K (trace s1));
                 f2 = (if ret = 0 then f1\<lparr>fb := snd (k_add_fb K (trace s1))\<rparr> else f1);
                 s2 = set_fb output bufferIdx f2 (emit [AddFB w h (pitch f1) (handle f1)] s1)
             in if ret = - 1 then (False, emit [Warning ''Failed to add FB''] s2)
                else case k_map_dumb K (trace s2) of
                       None \<Rightarrow> (False, emit [MapDumb (handle f2), Warning ''Failed to map dumb buffer''] s2)
                     | Some mreq_offset \<Rightarrow>
                        (let s3 = emit [MapDumb (handle f2)] s2;
                             f3 = f2\<lparr>p := k_mmap K (trace s3)\<rparr>;
                             s4 = set_fb output bufferIdx f3 (emit [Mmap (size f2) mreq_offset] s3)
                         in if p f3 = MAP_FAILED
                            then (False, emit [Warning ''Failed to mmap dumb buffer''] s4)
                            else (True, emit [Memset (p f3) (size f3)] s4))))"

text \<open>
  \<^verbatim>\<open>Device::createFramebuffers\<close>: the inner loop over the buffer indices, and the outer
  loop over the outputs. The first failure returns from the whole function.
\<close>

fun create_slots :: "kernel \<Rightarrow> nat \<Rightarrow> nat list \<Rightarrow> world \<Rightarrow> bool \<times> world" where
  "create_slots K output [] s = (True, s)"
| "create_slots K output (i # is) s =
     (case createFramebuffer K output i s of
        (False, s') \<Rightarrow> (False, s')
      | (True, s') \<Rightarrow> create_slots K output is s')"

fun createFramebuffers_loop :: "kernel \<Rightarrow> nat list \<Rightarrow> world \<Rightarrow> world" where
  "createFramebuffers_loop K [] s = s"
| "createFramebuffers_loop K (output # rest) s =
     (case create_slots K output [0..<nat BUFFER_COUNT] s of
        (False, s') \<Rightarrow> s'
      | (True, s') \<Rightarrow>
          createFramebuffers_loop K rest
            (s'\<lparr>m_outputs := (m_outputs s')
                  [output := (m_outputs s' ! output)\<lparr>backFb := 0, flipped := False\<rparr>]\<rparr>))"

definition createFramebuffers :: "kernel \<Rightarrow> world \<Rightarrow> world" where
  "createFramebuffers K s = createFramebuffers_loop K [0..<length (m_outputs s)] s"

text \<open>
  \<^verbatim>\<open>Device::destroyFramebuffer\<close>. The result of \<^verbatim>\<open>munmap\<close> is not looked at, that of
  \<^verbatim>\<open>drmModeRmFB\<close> is tested \<^verbatim>\<open>== -1\<close>.
\<close>

definition destroyFramebuffer :: "kernel \<Rightarrow> nat \<Rightarrow> nat \<Rightarrow> world \<Rightarrow> world" where
  "destroyFramebuffer K output bufferIdx s =
     (let f = get_fb output bufferIdx s;
          s1 = (if p f \<noteq> MAP_FAILED then emit [Munmap (p f) (size f)] s else s);
          s2 = (if fb f \<noteq> 0
                then (if k_rm_fb K (trace s1) = - 1
                      then emit [RmFB (fb f) False, Warning ''Failed to remove fb''] s1
                      else emit [RmFB (fb f) (k_rm_fb K (trace s1) = 0)] s1)
                else s1);
          s3 = (if handle f \<noteq> 0
                then (if k_destroy_dumb K (trace s2)
                      then emit [DestroyDumb (handle f) True] s2
                      else emit [DestroyDumb (handle f) False,
                                 Warning ''Failed to destroy dumb buffer''] s2)
                else s2)
      in set_fb output bufferIdx Framebuffer0 s3)"

text \<open>\<^verbatim>\<open>Device::destroyFramebuffers\<close>.\<close>

definition destroyFramebuffers :: "kernel \<Rightarrow> world \<Rightarrow> world" where
  "destroyFramebuffers K s =
     fold (\<lambda>output. fold (destroyFramebuffer K output) [0..<nat BUFFER_COUNT])
       [0..<length (m_outputs s)] s"

section \<open>Mode setter\<close>

text \<open>
  \<^verbatim>\<open>Device::setMode\<close>: the first output for which \<^verbatim>\<open>drmModeSetCrtc\<close> returns \<^verbatim>\<open>-1\<close>
  ends the loop.
\<close>

fun setMode_loop :: "kernel \<Rightarrow> nat list \<Rightarrow> world \<Rightarrow> world" where
  "setMode_loop K [] s = s"
| "setMode_loop K (i # rest) s =
     (let output = m_outputs s ! i;
          k = kmsOutput output
      in if k_set_crtc K (trace s) = - 1
         then emit [SetCrtc (crtc_id k) (fb (fbs output ! 0)) (connector_id k) False,
                    Warning ''Failed to set mode''] s
         else setMode_loop K rest
                (emit [SetCrtc (crtc_id k) (fb (fbs output ! 0)) (connector_id k)
                         (k_set_crtc K (trace s) = 0), SetPowerOn i]
                   (s\<lparr>m_outputs := (m_outputs s)[i := output\<lparr>kmsOutput := k\<lparr>mode_set := True\<rparr>\<rparr>]\<rparr>)))"

definition setMode :: "kernel \<Rightarrow> world \<Rightarrow> world" where
  "setMode K s = setMode_loop K [0..<length (m_outputs s)] s"

section \<open>Device life cycle\<close>

text \<open>
  \<^verbatim>\<open>Device::open\<close>, \<^verbatim>\<open>Device::createScreen\<close> (called back by Qt's \<^verbatim>\<open>createScreens\<close>
  once for each output it has discovered) and \<^verbatim>\<open>Device::close\<close>.
\<close>

definition open_device :: "kernel \<Rightarrow> world \<Rightarrow> bool \<times> world" where
  "open_device K s =
     (if \<not> k_open K
      then (False, emit [OpenDevice False, Warning ''Could not open DRM device''] s)
      else if \<not> k_dumb_cap K
      then (False, emit [OpenDevice True, GetCap False, Warning ''Dumb buffers not supported'',
                         CloseDevice] s)
      else (True, (emit [OpenDevice True, GetCap True] s)\<lparr>fd_valid := True\<rparr>))"

definition createScreen :: "QKmsOutput \<Rightarrow> world \<Rightarrow> world" where
  "createScreen output s = s\<lparr>m_outputs := m_outputs s @ [Output0 output]\<rparr>"

definition createScreens :: "QKmsOutput list \<Rightarrow> world \<Rightarrow> world" where
  "createScreens discovered s = fold createScreen discovered s"

definition close_device :: "world \<Rightarrow> world" where
  "close_device s =
     (let s1 = (emit (map Cleanup [0..<length (m_outputs s)]) s)\<lparr>m_outputs := []\<rparr>
      in if fd_valid s1 then (emit [CloseDevice] s1)\<lparr>fd_valid := False\<rparr> else s1)"

section \<open>Frame driver\<close>

text \<open>
  \<^verbatim>\<open>DumbBufferRenderer::update\<close>: the body of the loop for one output, and the loop. The
  pixel loop stores the same word \<^verbatim>\<open>size / 4\<close> times from \<^verbatim>\<open>p\<close> on.
\<close>

definition update_output :: "kernel \<Rightarrow> nat \<Rightarrow> world \<Rightarrow> world run" where
  "update_output K i s =
     (let output = m_outputs s ! i;
          f = fbs output ! nat (backFb output)
      in if p f = MAP_FAILED then Done s
         else swapBuffers K i
                ((emit [Fill (p f) (size f div 4)
                         (push_bit 16 (m_r s) OR push_bit 8 (m_g s) OR m_b s)] s)
                   \<lparr>m_r := m_r s + 1, m_g := m_g s + 2, m_b := m_b s + 3\<rparr>))"

fun update_loop :: "kernel \<Rightarrow> nat list \<Rightarrow> world \<Rightarrow> world run" where
  "update_loop K [] s = Done s"
| "update_loop K (i # rest) s = run_bind (update_output K i s) (update_loop K rest)"

definition update :: "kernel \<Rightarrow> world \<Rightarrow> world run" where
  "update K s = update_loop K [0..<length (m_outputs s)] s"

section \<open>The process\<close>

text \<open>
  The constructor of \<^verbatim>\<open>DumbBufferRenderer\<close> returns whether it has started the timer;
  \<open>discovered\<close> are the outputs that Qt's \<^verbatim>\<open>createScreens\<close> finds.
\<close>

definition world0 :: "nat list list \<Rightarrow> world" where
  "world0 events =
     \<lparr>m_outputs = [], m_r = 0, m_g = 0, m_b = 0, trace = [], pending = events, fd_valid = False\<rparr>"

definition DumbBufferRenderer :: "kernel \<Rightarrow> QKmsOutput list \<Rightarrow> world \<Rightarrow> bool \<times> world" where
  "DumbBufferRenderer K discovered s =
     (case open_device K s of
        (False, s') \<Rightarrow> (False, emit [Warning ''Failed to open DRM device''] s')
      | (True, s') \<Rightarrow> (True, setMode K (createFramebuffers K (createScreens discovered s'))))"

definition DumbBufferRenderer_destroy :: "kernel \<Rightarrow> world \<Rightarrow> world" where
  "DumbBufferRenderer_destroy K s = close_device (destroyFramebuffers K s)"

text \<open>\<open>n\<close> timeouts of the timer, each one calling \<^verbatim>\<open>update\<close>.\<close>

fun timeouts :: "kernel \<Rightarrow> nat \<Rightarrow> world \<Rightarrow> world run" where
  "timeouts K 0 s = Done s"
| "timeouts K (Suc n) s = run_bind (update K s) (timeouts K n)"

text \<open>
  \<^verbatim>\<open>main\<close>: \<^verbatim>\<open>app.exec()\<close> runs the timeouts that fit into the ten seconds (\<open>n\<close> of
  them, none when the timer was not started) until the single-shot timer calls
  \<^verbatim>\<open>QCoreApplication::quit\<close>, which is \<^verbatim>\<open>exit(0)\<close>; \<^verbatim>\<open>exec\<close> returns that code, and the
  renderer is destroyed on the way out of \<^verbatim>\<open>main\<close>.
\<close>

definition app_exec :: "kernel \<Rightarrow> nat \<Rightarrow> bool \<times> world \<Rightarrow> (int \<times> world) run" where
  "app_exec K n r =
     run_bind (if fst r then timeouts K n (snd r) else Done (snd r)) (\<lambda>s. Done (0, s))"

definition main :: "kernel \<Rightarrow> QKmsOutput list \<Rightarrow> nat \<Rightarrow> nat list list \<Rightarrow> (int \<times> world) run" where
  "main K discovered n events =
     run_bind (app_exec K n (DumbBufferRenderer K discovered (world0 events)))
       (\<lambda>(code, s). Done (code, DumbBufferRenderer_destroy K s))"

section \<open>Notions used by the properties\<close>

text \<open>
  The log entries that \<^verbatim>\<open>destroyFramebuffer\<close> adds for a framebuffer \<open>f\<close> when the log
  so far is \<open>t\<close>.
\<close>

definition release_log :: "kernel \<Rightarrow> Framebuffer \<Rightarrow> log \<Rightarrow> log" where
  "release_log K f t =
     (let a1 = (if p f \<noteq> MAP_FAILED then [Munmap (p f) (size f)] else []);
          a2 = (if fb f \<noteq> 0
                then (if k_rm_fb K (t @ a1) = - 1
                      then [RmFB (fb f) False, Warning ''Failed to remove fb'']
                      else [RmFB (fb f) (k_rm_fb K (t @ a1) = 0)])
                else []);
          a3 = (if handle f \<noteq> 0
                then (if k_destroy_dumb K (t @ a1 @ a2) then [DestroyDumb (handle f) True]
                      else [DestroyDumb (handle f) False, Warning ''Failed to destroy dumb buffer''])
                else [])
      in a1 @ a2 @ a3)"

text \<open>The release requests of a log, in order, without their results.\<close>

datatype release = Unmap "64 word" "64 word" | RemoveFB "32 word" | DestroyHandle "32 word"

fun releases :: "log \<Rightarrow> release list" where
  "releases [] = []"
| "releases (Munmap a n # t) = Unmap a n # releases t"
| "releases (RmFB i ok # t) = RemoveFB i # releases t"
| "releases (DestroyDumb h ok # t) = DestroyHandle h # releases t"
| "releases (a # t) = releases t"

text \<open>A buffer is fully constructed, or fully torn down.\<close>

definition fully_constructed :: "Framebuffer \<Rightarrow> bool" where
  "fully_constructed f = (handle f \<noteq> 0 \<and> fb f \<noteq> 0 \<and> p f \<noteq> MAP_FAILED)"

definition torn_down :: "Framebuffer \<Rightarrow> bool" where
  "torn_down f = (f = Framebuffer0)"

text \<open>A kernel that works, an output and a device with two outputs, to run the model on.\<close>

definition demo_kernel :: kernel where
  "demo_kernel =
     \<lparr>k_open = True, k_dumb_cap = True,
      k_create_dumb = (\<lambda>t. Some (of_nat (length t) + 1, 64, 4096)),
      k_add_fb = (\<lambda>t. (0, of_nat (length t) + 100)),
      k_map_dumb = (\<lambda>t. Some 0),
      k_mmap = (\<lambda>t. of_nat (length t) * 4096),
      k_rm_fb = (\<lambda>t. 0), k_destroy_dumb = (\<lambda>t. True),
      k_set_crtc = (\<lambda>t. 0), k_page_flip = (\<lambda>t. 0)\<rparr>"

definition demo_kms :: QKmsOutput where
  "demo_kms = \<lparr>crtc_id = 7, connector_id = 9, hdisplay = 4, vdisplay = 2, mode_set = False\<rparr>"

definition demo_output :: Output where
  "demo_output =
     \<lparr>kmsOutput = demo_kms,
      fbs = [\<lparr>handle = 3, pitch = 64, size = 4096, fb = 103, p = 20480\<rparr>,
             \<lparr>handle = 8, pitch = 64, size = 4096, fb = 108, p = 40960\<rparr>],
      backFb = 0, flipped = False\<rparr>"

definition demo_output2 :: Output where
  "demo_output2 =
     \<lparr>kmsOutput = demo_kms\<lparr>crtc_id := 8, connector_id := 10\<rparr>,
      fbs = [\<lparr>handle = 13, pitch = 64, size = 4096, fb = 113, p = 61440\<rparr>,
             \<lparr>handle = 18, pitch = 64, size = 4096, fb = 118, p = 81920\<rparr>],
      backFb = 0, flipped = False\<rparr>"

definition demo_world :: "nat list list \<Rightarrow> world" where
  "demo_world events = (world0 events)\<lparr>m_outputs := [demo_output, demo_output2], fd_valid := True\<rparr>"

text \<open>\<open>n\<close> calls of \<^verbatim>\<open>swapBuffers\<close> on one output, one after the other.\<close>

fun swapBuffers_times :: "kernel \<Rightarrow> nat \<Rightarrow> nat \<Rightarrow> world \<Rightarrow> world run" where
  "swapBuffers_times K output 0 s = Done s"
| "swapBuffers_times K output (Suc n) s =
     run_bind (swapBuffers K output s) (swapBuffers_times K output n)"

text \<open>
  What an event changes: two states are \<open>same_frame\<close> when they differ at most in the
  \<^verbatim>\<open>backFb\<close> of their outputs, in the log and in the batches to come.
\<close>

definition same_frame :: "world \<Rightarrow> world \<Rightarrow> bool" where
  "same_frame s s' =
     (length (m_outputs s') = length (m_outputs s)
      \<and> (\<forall>i. flipped (m_outputs s' ! i) = flipped (m_outputs s ! i)
             \<and> fbs (m_outputs s' ! i) = fbs (m_outputs s ! i)
             \<and> kmsOutput (m_outputs s' ! i) = kmsOutput (m_outputs s ! i))
      \<and> m_r s' = m_r s \<and> m_g s' = m_g s \<and> m_b s' = m_b s \<and> fd_valid s' = fd_valid s)"

definition slot_ok :: "Output \<Rightarrow> bool" where
  "slot_ok out = (backFb out = 0 \<or> backFb out = 1)"

fun returned :: "'a run \<Rightarrow> bool" where
  "returned (Done x) = True"
| "returned (Hang s) = False"

text \<open>The same device once every output has had its first \<^verbatim>\<open>swapBuffers\<close>.\<close>

definition demo_running :: "nat list list \<Rightarrow> world" where
  "demo_running events =
     (world0 events)\<lparr>m_outputs := [demo_output\<lparr>flipped := True\<rparr>, demo_output2\<lparr>flipped := True\<rparr>],
                      fd_valid := True\<rparr>"

text \<open>
  The flip requests of output \<open>i\<close> that are submitted and not yet acknowledged, counted
  along a log: an accepted \<^verbatim>\<open>drmModePageFlip\<close> for \<open>i\<close> adds one, a completion event
  for \<open>i\<close> takes one away. \<open>one_in_flight\<close> says that the count is at most one at every
  point of the log.
\<close>

fun flight_step :: "nat \<Rightarrow> action \<Rightarrow> nat \<Rightarrow> nat" where
  "flight_step i (PageFlip crtc f u ok) c = (if u = i \<and> ok then Suc c else c)"
| "flight_step i (FlipEvent u) c = (if u = i then c - 1 else c)"
| "flight_step i a c = c"

definition in_flight :: "nat \<Rightarrow> log \<Rightarrow> nat" where
  "in_flight i t = fold (flight_step i) t 0"

definition one_in_flight :: "nat \<Rightarrow> log \<Rightarrow> bool" where
  "one_in_flight i t = (\<forall>u \<in> set (prefixes t). in_flight i u \<le> 1)"

text \<open>
  The invariant behind it: output \<open>i\<close> exists, and as long as \<^verbatim>\<open>flipped\<close> is not set
  nothing is in flight for it. \<open>waiting_inv\<close> is its form inside the wait loop of
  \<^verbatim>\<open>swapBuffers\<close> for \<open>i\<close>: once \<^verbatim>\<open>backFb\<close> has left \<open>k\<close>, nothing is in flight.
\<close>

definition flight_inv :: "nat \<Rightarrow> world \<Rightarrow> bool" where
  "flight_inv i s =
     (i < length (m_outputs s) \<and> one_in_flight i (trace s)
      \<and> (\<not> flipped (m_outputs s ! i) \<longrightarrow> in_flight i (trace s) = 0))"

definition waiting_inv :: "nat \<Rightarrow> int \<Rightarrow> world \<Rightarrow> bool" where
  "waiting_inv i k s =
     (i < length (m_outputs s) \<and> one_in_flight i (trace s)
      \<and> (backFb (m_outputs s ! i) \<noteq> k \<longrightarrow> in_flight i (trace s) = 0))"

text \<open>The log entries that are neither a flip request nor a completion event.\<close>

fun quiet :: "action \<Rightarrow> bool" where
  "quiet (PageFlip crtc f u ok) = False"
| "quiet (FlipEvent u) = False"
| "quiet a = True"

text \<open>
  Every output has its \<^verbatim>\<open>backFb\<close> at 0 or 1 and its array of two framebuffers, so that
  \<^verbatim>\<open>output.fb[output.backFb]\<close> is an element of the array.
\<close>

definition slots_ok :: "world \<Rightarrow> bool" where
  "slots_ok s = list_all (\<lambda>out. slot_ok out \<and> length (fbs out) = nat BUFFER_COUNT) (m_outputs s)"

text \<open>The device as \<^verbatim>\<open>createScreens\<close> leaves it: two outputs, no buffer allocated yet.\<close>

definition demo_fresh :: "nat list list \<Rightarrow> world" where
  "demo_fresh events =
     (world0 events)\<lparr>m_outputs := [Output0 demo_kms, Output0 demo_kms], fd_valid := True\<rparr>"

text \<open>A kernel that hands out the same non-zero handles at every call.\<close>

definition steady_kernel :: kernel where
  "steady_kernel =
     demo_kernel\<lparr>k_create_dumb := (\<lambda>t. Some (3, 64, 4096)), k_add_fb := (\<lambda>t. (0, 103))\<rparr>"

text \<open>The exit code of the process, when \<^verbatim>\<open>main\<close> returns.\<close>

fun exit_code :: "(int \<times> world) run \<Rightarrow> int option" where
  "exit_code (Done (code, s)) = Some code"
| "exit_code (Hang s) = None"



text \<open>
  What \<^verbatim>\<open>drmModeAddFB\<close> answers in \<^verbatim>\<open>createFramebuffer\<close> for an output in state \<open>s\<close>, once
  the dumb buffer has been created: the request for the dumb buffer is then the last
  entry of the log.
\<close>

definition add_fb_answer :: "kernel \<Rightarrow> nat \<Rightarrow> world \<Rightarrow> int \<times> 32 word" where
  "add_fb_answer K output s =
     k_add_fb K (trace s @ [CreateDumb (ucast (vdisplay (kmsOutput (m_outputs s ! output))))
                                       (ucast (hdisplay (kmsOutput (m_outputs s ! output))))])"

section \<open>Basic facts about the log and the framebuffer reference\<close>

lemma trace_emit [simp]: "trace (emit as s) = trace s @ as"
  and m_outputs_emit [simp]: "m_outputs (emit as s) = m_outputs s"
  and pending_emit [simp]: "pending (emit as s) = pending s"
  and fd_valid_emit [simp]: "fd_valid (emit as s) = fd_valid s"
  by (simp_all add: emit_def)

lemma emit_Nil [simp]: "emit [] s = s"
  by (simp add: emit_def)

lemma emit_emit [simp]: "emit bs (emit as s) = emit (as @ bs) s"
  by (simp add: emit_def)

lemma get_fb_emit [simp]: "get_fb output bufferIdx (emit as s) = get_fb output bufferIdx s"
  by (simp add: get_fb_def)

lemma trace_set_fb [simp]: "trace (set_fb output bufferIdx f s) = trace s"
  by (simp add: set_fb_def)

lemma get_fb_set_fb:
  "output < length (m_outputs s) \<Longrightarrow> bufferIdx < length (fbs (m_outputs s ! output)) \<Longrightarrow>
   get_fb output bufferIdx (set_fb output bufferIdx f s) = f"
  by (simp add: get_fb_def set_fb_def)

lemma set_fb_emit: "set_fb output bufferIdx f (emit as s) = emit as (set_fb output bufferIdx f s)"
  by (simp add: set_fb_def emit_def)

lemma set_fb_twice [simp]:
  "set_fb output bufferIdx f (set_fb output bufferIdx g s) = set_fb output bufferIdx f s"
  by (cases "output < length (m_outputs s)") (simp_all add: set_fb_def list_update_beyond)

section \<open>Teardown of a buffer\<close>

lemma destroyFramebuffer_eq:
  "destroyFramebuffer K output bufferIdx s
     = set_fb output bufferIdx Framebuffer0
         (emit (release_log K (get_fb output bufferIdx s) (trace s)) s)"
  by (simp add: destroyFramebuffer_def release_log_def Let_def)

lemma release_log_torn_down [simp]: "release_log K Framebuffer0 t = []"
  by (simp add: release_log_def Framebuffer0_def)

lemma releases_append [simp]: "releases (t @ u) = releases t @ releases u"
  by (induction t rule: releases.induct) simp_all

lemma releases_release_log:
  "releases (release_log K f t)
     = (if p f \<noteq> MAP_FAILED then [Unmap (p f) (size f)] else [])
       @ (if fb f \<noteq> 0 then [RemoveFB (fb f)] else [])
       @ (if handle f \<noteq> 0 then [DestroyHandle (handle f)] else [])"
  by (simp add: release_log_def Let_def)

text \<open>
  C8. \<^verbatim>\<open>destroyFramebuffer\<close> is idempotent: a second call on the buffer leaves the whole
  state as the first call left it, the log included, so it makes no kernel call (no
  unmap, no removal of the presentation handle, no destruction of the allocation handle)
  and reports no error.
\<close>

theorem destroyFramebuffer_idempotent:
  assumes "output < length (m_outputs s)"
    and "bufferIdx < length (fbs (m_outputs s ! output))"
  shows "destroyFramebuffer K output bufferIdx (destroyFramebuffer K output bufferIdx s)
           = destroyFramebuffer K output bufferIdx s"
proof -
  let ?s' = "set_fb output bufferIdx Framebuffer0
               (emit (release_log K (get_fb output bufferIdx s) (trace s)) s)"
  have first: "destroyFramebuffer K output bufferIdx s = ?s'"
    by (rule destroyFramebuffer_eq)
  have torn: "get_fb output bufferIdx ?s' = Framebuffer0"
    using assms by (simp add: get_fb_set_fb)
  have "destroyFramebuffer K output bufferIdx ?s' = set_fb output bufferIdx Framebuffer0 ?s'"
    by (simp only: destroyFramebuffer_eq [of K _ _ ?s'] torn release_log_torn_down emit_Nil)
  also have "\<dots> = ?s'"
    by (simp only: set_fb_twice)
  finally show ?thesis
    by (simp only: first)
qed

theorem destroyFramebuffer_idempotent_witness:
  "0 < length (m_outputs (demo_world [])) \<and> 1 < length (fbs (m_outputs (demo_world []) ! 0))
   \<and> destroyFramebuffer demo_kernel 0 1 (destroyFramebuffer demo_kernel 0 1 (demo_world []))
       = destroyFramebuffer demo_kernel 0 1 (demo_world [])
   \<and> trace (destroyFramebuffer demo_kernel 0 1 (demo_world []))
       = [Munmap 40960 4096, RmFB 108 True, DestroyDumb 8 True]"
proof -
  have a: "0 < length (m_outputs (demo_world []))"
    by (simp add: demo_world_def)
  have b: "1 < length (fbs (m_outputs (demo_world []) ! 0))"
    by (simp add: demo_world_def demo_output_def)
  have c: "trace (destroyFramebuffer demo_kernel 0 1 (demo_world []))
       = [Munmap 40960 4096, RmFB 108 True, DestroyDumb 8 True]"
    by (simp add: destroyFramebuffer_eq release_log_def demo_world_def demo_output_def world0_def
        get_fb_def demo_kernel_def MAP_FAILED_def)
  show ?thesis
    using destroyFramebuffer_idempotent [OF a b, of demo_kernel] a b c by simp
qed

text \<open>
  C9. \<^verbatim>\<open>destroyFramebuffer\<close> releases in the order unmap, remove the presentation handle,
  destroy the allocation handle; each request is made exactly when its resource is held
  (pointer not \<^verbatim>\<open>MAP_FAILED\<close>, \<^verbatim>\<open>fb\<close> not zero, \<^verbatim>\<open>handle\<close> not zero), whatever the kernel
  answers to the requests before it.
\<close>

theorem destroyFramebuffer_release_order:
  "releases (trace (destroyFramebuffer K output bufferIdx s))
     = releases (trace s)
       @ (if p (get_fb output bufferIdx s) \<noteq> MAP_FAILED
          then [Unmap (p (get_fb output bufferIdx s)) (size (get_fb output bufferIdx s))] else [])
       @ (if fb (get_fb output bufferIdx s) \<noteq> 0
          then [RemoveFB (fb (get_fb output bufferIdx s))] else [])
       @ (if handle (get_fb output bufferIdx s) \<noteq> 0
          then [DestroyHandle (handle (get_fb output bufferIdx s))] else [])"
  by (simp only: destroyFramebuffer_eq trace_set_fb trace_emit releases_append
      releases_release_log)

text \<open>With a kernel that refuses every release, all three are still requested, in order.\<close>

theorem destroyFramebuffer_release_order_witness:
  "releases (trace (destroyFramebuffer
       (demo_kernel\<lparr>k_rm_fb := (\<lambda>t. - 22), k_destroy_dumb := (\<lambda>t. False)\<rparr>) 0 1 (demo_world [])))
     = [Unmap 40960 4096, RemoveFB 108, DestroyHandle 8]"
  using destroyFramebuffer_release_order
    [of "demo_kernel\<lparr>k_rm_fb := (\<lambda>t. - 22), k_destroy_dumb := (\<lambda>t. False)\<rparr>" 0 1 "demo_world []"]
  by (simp add: demo_world_def demo_output_def world0_def get_fb_def MAP_FAILED_def)

section \<open>Completion events\<close>

lemma rotate_slot: "b = 0 \<or> b = 1 \<Longrightarrow> (b + 1) smod BUFFER_COUNT = 1 - b"
  by (auto simp add: BUFFER_COUNT_def smod_int_alt_def)

lemma same_frame_refl [simp]: "same_frame s s"
  by (simp add: same_frame_def)

lemma same_frame_trans: "same_frame s s' \<Longrightarrow> same_frame s' s'' \<Longrightarrow> same_frame s s''"
  by (simp add: same_frame_def)

lemma same_frame_pending [simp]: "same_frame s (s'\<lparr>pending := evs\<rparr>) = same_frame s s'"
  by (simp add: same_frame_def)

lemma same_frame_emit [simp]: "same_frame s (emit as s') = same_frame s s'"
  by (simp add: same_frame_def emit_def)

lemma length_pageFlipHandler [simp]:
  "length (m_outputs (pageFlipHandler u s)) = length (m_outputs s)"
  by (simp add: pageFlipHandler_def Let_def)

lemma pageFlipHandler_other:
  "u \<noteq> i \<Longrightarrow> m_outputs (pageFlipHandler u s) ! i = m_outputs s ! i"
  by (simp add: pageFlipHandler_def Let_def)

lemma pageFlipHandler_self:
  "i < length (m_outputs s) \<Longrightarrow>
   m_outputs (pageFlipHandler i s) ! i
     = (m_outputs s ! i)\<lparr>backFb := (backFb (m_outputs s ! i) + 1) smod BUFFER_COUNT\<rparr>"
  by (simp add: pageFlipHandler_def Let_def)

lemma pageFlipHandler_beyond:
  "\<not> u < length (m_outputs s) \<Longrightarrow> pageFlipHandler u s = s"
  by (simp add: pageFlipHandler_def)

lemma same_frame_pageFlipHandler: "same_frame s (pageFlipHandler u s)"
proof (cases "u < length (m_outputs s)")
  case True
  have "\<And>i. flipped (m_outputs (pageFlipHandler u s) ! i) = flipped (m_outputs s ! i)
           \<and> fbs (m_outputs (pageFlipHandler u s) ! i) = fbs (m_outputs s ! i)
           \<and> kmsOutput (m_outputs (pageFlipHandler u s) ! i) = kmsOutput (m_outputs s ! i)"
  proof -
    fix i
    show "flipped (m_outputs (pageFlipHandler u s) ! i) = flipped (m_outputs s ! i)
           \<and> fbs (m_outputs (pageFlipHandler u s) ! i) = fbs (m_outputs s ! i)
           \<and> kmsOutput (m_outputs (pageFlipHandler u s) ! i) = kmsOutput (m_outputs s ! i)"
      using True by (cases "u = i") (simp_all add: pageFlipHandler_other pageFlipHandler_self)
  qed
  moreover have "m_r (pageFlipHandler u s) = m_r s \<and> m_g (pageFlipHandler u s) = m_g s
      \<and> m_b (pageFlipHandler u s) = m_b s \<and> fd_valid (pageFlipHandler u s) = fd_valid s"
    by (simp add: pageFlipHandler_def Let_def emit_def)
  ultimately show ?thesis
    by (simp add: same_frame_def)
next
  case False
  then show ?thesis by (simp add: pageFlipHandler_beyond)
qed

lemma slot_ok_pageFlipHandler:
  "slot_ok (m_outputs s ! i) \<Longrightarrow> slot_ok (m_outputs (pageFlipHandler u s) ! i)"
proof (cases "u = i \<and> i < length (m_outputs s)")
  case True
  assume "slot_ok (m_outputs s ! i)"
  then show ?thesis
    using True by (auto simp add: pageFlipHandler_self slot_ok_def rotate_slot)
next
  case False
  assume "slot_ok (m_outputs s ! i)"
  then show ?thesis
    using False by (cases "u = i") (simp_all add: pageFlipHandler_other pageFlipHandler_beyond)
qed

lemma same_frame_fold_handler: "same_frame s (fold pageFlipHandler batch s)"
proof (induction batch arbitrary: s)
  case Nil
  show ?case by simp
next
  case (Cons u batch)
  show ?case
    using same_frame_trans [OF same_frame_pageFlipHandler Cons.IH] by simp
qed

lemma slot_ok_fold_handler:
  "slot_ok (m_outputs s ! i) \<Longrightarrow> slot_ok (m_outputs (fold pageFlipHandler batch s) ! i)"
  by (induction batch arbitrary: s) (simp_all add: slot_ok_pageFlipHandler)

lemma fold_handler_other:
  "i \<notin> set batch \<Longrightarrow> m_outputs (fold pageFlipHandler batch s) ! i = m_outputs s ! i"
  by (induction batch arbitrary: s) (auto simp add: pageFlipHandler_other)

lemma same_frame_drmHandleEvent: "same_frame s (drmHandleEvent batch s)"
  using same_frame_fold_handler [of "emit [HandleEvent] s" batch]
  by (simp add: drmHandleEvent_def same_frame_def emit_def)

lemma slot_ok_drmHandleEvent:
  "slot_ok (m_outputs s ! i) \<Longrightarrow> slot_ok (m_outputs (drmHandleEvent batch s) ! i)"
  by (simp add: drmHandleEvent_def slot_ok_fold_handler)

lemma drmHandleEvent_other:
  "i \<notin> set batch \<Longrightarrow> m_outputs (drmHandleEvent batch s) ! i = m_outputs s ! i"
  by (simp add: drmHandleEvent_def fold_handler_other)

section \<open>The wait of swapBuffers\<close>

lemma wait_flip_Done_rotated:
  "wait_flip i k evs s = Done s' \<Longrightarrow> backFb (m_outputs s' ! i) \<noteq> k"
  by (induction evs arbitrary: s) (auto split: if_splits)

lemma same_frame_wait_flip: "same_frame s (last_world (wait_flip i k evs s))"
proof (induction evs arbitrary: s)
  case Nil
  show ?case by simp
next
  case (Cons batch evs)
  show ?case
    using same_frame_trans [OF same_frame_drmHandleEvent Cons.IH] by simp
qed

lemma slot_ok_wait_flip:
  "slot_ok (m_outputs s ! j) \<Longrightarrow> slot_ok (m_outputs (last_world (wait_flip i k evs s)) ! j)"
  by (induction evs arbitrary: s) (simp_all add: slot_ok_drmHandleEvent)

section \<open>swapBuffers\<close>

lemma m_outputs_page_flip [simp]: "m_outputs (page_flip K i s) = m_outputs s"
  by (simp add: page_flip_def Let_def)

lemma pending_page_flip [simp]: "pending (page_flip K i s) = pending s"
  by (simp add: page_flip_def Let_def)

lemma same_frame_page_flip [simp]: "same_frame s (page_flip K i s') = same_frame s s'"
  by (simp add: page_flip_def Let_def)

lemma swapBuffers_flipped:
  "flipped (m_outputs s ! i) \<Longrightarrow>
   swapBuffers K i s
     = run_bind (wait_flip i (backFb (m_outputs s ! i)) (pending s) s) (\<lambda>s'. Done (page_flip K i s'))"
  by (simp add: swapBuffers_def)

lemma swapBuffers_first:
  "\<not> flipped (m_outputs s ! i) \<Longrightarrow>
   swapBuffers K i s
     = Done (page_flip K i (s\<lparr>m_outputs := (m_outputs s)[i := (m_outputs s ! i)\<lparr>flipped := True\<rparr>]\<rparr>))"
  by (simp add: swapBuffers_def)

lemma run_bind_Done_iff:
  "run_bind r f = Done y \<longleftrightarrow> (\<exists>x. r = Done x \<and> f x = Done y)"
  by (cases r) simp_all

lemma swapBuffers_flipped_Done:
  assumes "flipped (m_outputs s ! i)" and "slot_ok (m_outputs s ! i)"
    and "swapBuffers K i s = Done s'"
  shows "backFb (m_outputs s' ! i) = 1 - backFb (m_outputs s ! i)"
    and "flipped (m_outputs s' ! i)" and "slot_ok (m_outputs s' ! i)"
    and "length (m_outputs s') = length (m_outputs s)"
proof -
  let ?k = "backFb (m_outputs s ! i)"
  obtain s1 where w: "wait_flip i ?k (pending s) s = Done s1" and s': "s' = page_flip K i s1"
    using assms(1,3) by (auto simp add: swapBuffers_flipped run_bind_Done_iff)
  have ne: "backFb (m_outputs s1 ! i) \<noteq> ?k"
    using w by (rule wait_flip_Done_rotated)
  have ok: "slot_ok (m_outputs s1 ! i)"
    using slot_ok_wait_flip [OF assms(2), of i ?k "pending s"] w by simp
  have sf: "same_frame s s1"
    using same_frame_wait_flip [of s i ?k "pending s"] w by simp
  show "backFb (m_outputs s' ! i) = 1 - backFb (m_outputs s ! i)"
    using ne ok assms(2) s' by (auto simp add: slot_ok_def)
  show "flipped (m_outputs s' ! i)"
    using sf assms(1) s' by (simp add: same_frame_def)
  show "slot_ok (m_outputs s' ! i)"
    using ok s' by simp
  show "length (m_outputs s') = length (m_outputs s)"
    using sf s' by (simp add: same_frame_def)
qed

lemma xor_parity_step:
  "b = 0 \<or> b = 1 \<Longrightarrow> (1 - b) XOR int (n mod 2) = (b::int) XOR int (Suc n mod 2)"
  by (cases "even n") (auto simp add: mod_Suc even_iff_mod_2_eq_zero odd_iff_mod_2_eq_one)

lemma swapBuffers_times_flipped:
  "flipped (m_outputs s ! i) \<Longrightarrow> slot_ok (m_outputs s ! i) \<Longrightarrow>
   swapBuffers_times K i n s = Done s' \<Longrightarrow>
   backFb (m_outputs s' ! i) = backFb (m_outputs s ! i) XOR int (n mod 2)"
proof (induction n arbitrary: s)
  case 0
  then show ?case by simp
next
  case (Suc n)
  from Suc.prems(3) obtain s1 where one: "swapBuffers K i s = Done s1"
    and rest: "swapBuffers_times K i n s1 = Done s'"
    by (auto simp add: run_bind_Done_iff)
  note step = swapBuffers_flipped_Done [OF Suc.prems(1,2) one]
  have "backFb (m_outputs s' ! i) = backFb (m_outputs s1 ! i) XOR int (n mod 2)"
    using Suc.IH [OF step(2) step(3) rest] .
  also have "\<dots> = backFb (m_outputs s ! i) XOR int (Suc n mod 2)"
    using Suc.prems(2) by (simp only: step(1) xor_parity_step slot_ok_def)
  finally show ?case .
qed

lemma returned_Done: "returned r \<Longrightarrow> r = Done (last_world r)"
  by (cases r) simp_all

lemmas demo_defs = demo_world_def demo_output_def demo_output2_def demo_kms_def demo_kernel_def world0_def

lemmas flip_defs = swapBuffers_def page_flip_def drmHandleEvent_def pageFlipHandler_def
  emit_def Let_def BUFFER_COUNT_def smod_int_alt_def

text \<open>
  C1, as the code has it. A call of \<^verbatim>\<open>swapBuffers\<close> that finds \<^verbatim>\<open>flipped\<close> set returns
  only after \<^verbatim>\<open>backFb\<close> has moved to the other index; the first call on an output
  (\<^verbatim>\<open>flipped\<close> not yet set) waits for nothing and leaves \<^verbatim>\<open>backFb\<close> as it is. So after
  \<open>n\<close> calls that have returned, \<^verbatim>\<open>backFb\<close> is the initial value XOR \<open>n mod 2\<close> when
  \<^verbatim>\<open>flipped\<close> was set before the first of them, and the initial value XOR
  \<open>(n - 1) mod 2\<close> when it was not.
\<close>

theorem swapBuffers_times_rotation:
  assumes "i < length (m_outputs s)" and "slot_ok (m_outputs s ! i)"
    and "swapBuffers_times K i n s = Done s'"
  shows "backFb (m_outputs s' ! i)
           = backFb (m_outputs s ! i) XOR int ((if flipped (m_outputs s ! i) then n else n - 1) mod 2)"
proof (cases "flipped (m_outputs s ! i)")
  case True
  then show ?thesis
    using swapBuffers_times_flipped [OF True assms(2,3)] by simp
next
  case False
  show ?thesis
  proof (cases n)
    case 0
    then show ?thesis using assms(3) False by simp
  next
    case (Suc m)
    let ?s1 = "page_flip K i (s\<lparr>m_outputs := (m_outputs s)[i := (m_outputs s ! i)\<lparr>flipped := True\<rparr>]\<rparr>)"
    have rest: "swapBuffers_times K i m ?s1 = Done s'"
      using assms(3) Suc by (simp add: swapBuffers_first [OF False])
    have "backFb (m_outputs s' ! i) = backFb (m_outputs ?s1 ! i) XOR int (m mod 2)"
      using assms(1,2) by (intro swapBuffers_times_flipped [OF _ _ rest]) (simp_all add: slot_ok_def)
    then show ?thesis
      using False Suc assms(1) by simp
  qed
qed

theorem swapBuffers_times_rotation_witness:
  "0 < length (m_outputs (demo_world [[0], [0]]))
   \<and> slot_ok (m_outputs (demo_world [[0], [0]]) ! 0)
   \<and> returned (swapBuffers_times demo_kernel 0 3 (demo_world [[0], [0]]))
   \<and> \<not> flipped (m_outputs (demo_world [[0], [0]]) ! 0)
   \<and> backFb (m_outputs (last_world (swapBuffers_times demo_kernel 0 3 (demo_world [[0], [0]]))) ! 0)
       = 0 XOR int ((3 - 1) mod 2)"
proof -
  let ?s = "demo_world [[0], [0]]"
  have a: "0 < length (m_outputs ?s)" and b: "slot_ok (m_outputs ?s ! 0)"
    and f: "\<not> flipped (m_outputs ?s ! 0)" and z: "backFb (m_outputs ?s ! 0) = 0"
    by (simp_all add: demo_defs slot_ok_def)
  have r: "returned (swapBuffers_times demo_kernel 0 3 ?s)"
    by (simp add: eval_nat_numeral demo_defs flip_defs)
  show ?thesis
    using swapBuffers_times_rotation [OF a b returned_Done [OF r]] a b f z r by simp
qed

text \<open>
  The claim as the specification states it fails at the first call on a fresh output:
  the call returns, and \<^verbatim>\<open>backFb\<close> is still 0, not 0 XOR 1.
\<close>

theorem swapBuffers_first_call_counterexample:
  "returned (swapBuffers_times demo_kernel 0 1 (demo_world []))
   \<and> backFb (m_outputs (demo_world []) ! 0) = 0
   \<and> backFb (m_outputs (last_world (swapBuffers_times demo_kernel 0 1 (demo_world []))) ! 0) = 0
   \<and> backFb (m_outputs (last_world (swapBuffers_times demo_kernel 0 1 (demo_world []))) ! 0)
       \<noteq> backFb (m_outputs (demo_world []) ! 0) XOR int (1 mod 2)"
  by (simp add: demo_defs flip_defs)

section \<open>Events for other outputs during the wait\<close>

lemma pageFlipHandler_pending:
  "pageFlipHandler u (s\<lparr>pending := x\<rparr>) = (pageFlipHandler u s)\<lparr>pending := x\<rparr>"
  by (simp add: pageFlipHandler_def Let_def emit_def)

lemma fold_handler_pending:
  "fold pageFlipHandler batch (s\<lparr>pending := x\<rparr>) = (fold pageFlipHandler batch s)\<lparr>pending := x\<rparr>"
  by (induction batch arbitrary: s) (simp_all add: pageFlipHandler_pending)

lemma emit_pending: "emit as (s\<lparr>pending := x\<rparr>) = (emit as s)\<lparr>pending := x\<rparr>"
  by (simp add: emit_def)

lemma drmHandleEvent_pending:
  "drmHandleEvent batch (s\<lparr>pending := x\<rparr>) = (drmHandleEvent batch s)\<lparr>pending := x\<rparr>"
  by (simp add: drmHandleEvent_def emit_pending fold_handler_pending)

lemma wait_flip_pending:
  "wait_flip i k evs (s\<lparr>pending := x\<rparr>) = wait_flip i k evs s"
  by (induction evs arbitrary: s) (simp_all add: drmHandleEvent_pending)

text \<open>
  C3. \<^verbatim>\<open>swapBuffers\<close> on output \<open>a\<close> finds \<^verbatim>\<open>flipped\<close> set and the next batch holds one
  event, for another output \<open>b\<close>. The handler runs for \<open>b\<close> and moves its \<^verbatim>\<open>backFb\<close> to
  the next index, \<open>a\<close> is left as it was, and the call goes on waiting in that state: it
  behaves as the call made there with the rest of the batches, and when nothing more
  arrives it blocks in that state, \<open>b\<close> rotated.
\<close>

theorem swapBuffers_demultiplexes:
  assumes "b < length (m_outputs s)" and "a \<noteq> b"
    and "flipped (m_outputs s ! a)" and "pending s = [b] # rest"
  shows "swapBuffers K a s = swapBuffers K a ((drmHandleEvent [b] s)\<lparr>pending := rest\<rparr>)
    \<and> backFb (m_outputs (drmHandleEvent [b] s) ! b) = (backFb (m_outputs s ! b) + 1) smod BUFFER_COUNT
    \<and> m_outputs (drmHandleEvent [b] s) ! a = m_outputs s ! a
    \<and> (rest = [] \<longrightarrow> swapBuffers K a s = Hang ((drmHandleEvent [b] s)\<lparr>pending := []\<rparr>))"
proof -
  let ?s1 = "drmHandleEvent [b] s"
  let ?k = "backFb (m_outputs s ! a)"
  have same_a: "m_outputs ?s1 ! a = m_outputs s ! a"
    using assms(2) by (simp add: drmHandleEvent_other)
  have rot_b: "backFb (m_outputs ?s1 ! b) = (backFb (m_outputs s ! b) + 1) smod BUFFER_COUNT"
    using assms(1) by (simp add: drmHandleEvent_def pageFlipHandler_self)
  have left: "swapBuffers K a s
      = run_bind (wait_flip a ?k rest ?s1) (\<lambda>s'. Done (page_flip K a s'))"
    using assms(3,4) by (simp add: swapBuffers_flipped)
  have right: "swapBuffers K a (?s1\<lparr>pending := rest\<rparr>)
      = run_bind (wait_flip a ?k rest ?s1) (\<lambda>s'. Done (page_flip K a s'))"
    using assms(3) by (simp add: swapBuffers_def same_a wait_flip_pending)
  have blocked: "swapBuffers K a s = Hang (?s1\<lparr>pending := []\<rparr>)" if "rest = []"
    using that by (simp add: left same_a)
  show ?thesis
    using same_a rot_b left right blocked by simp
qed

theorem swapBuffers_demultiplexes_witness:
  "1 < length (m_outputs (demo_running [[1]])) \<and> (0::nat) \<noteq> 1
   \<and> flipped (m_outputs (demo_running [[1]]) ! 0) \<and> pending (demo_running [[1]]) = [1] # []
   \<and> backFb (m_outputs (demo_running [[1]]) ! 1) = 0
   \<and> backFb (m_outputs (drmHandleEvent [1] (demo_running [[1]])) ! 1) = 1
   \<and> backFb (m_outputs (last_world (swapBuffers demo_kernel 0 (demo_running [[1]]))) ! 1) = 1
   \<and> \<not> returned (swapBuffers demo_kernel 0 (demo_running [[1]]))"
proof -
  let ?s = "demo_running [[1]]"
  have h: "1 < length (m_outputs ?s)" "(0::nat) \<noteq> 1" "flipped (m_outputs ?s ! 0)"
    "pending ?s = [1] # []" "backFb (m_outputs ?s ! 1) = 0"
    by (simp_all add: demo_running_def demo_output_def demo_output2_def world0_def)
  have rot: "backFb (m_outputs (drmHandleEvent [1] ?s) ! 1) = 1"
    by (simp add: demo_running_def demo_output_def demo_output2_def world0_def flip_defs)
  have "[] = [] \<longrightarrow> swapBuffers demo_kernel 0 ?s = Hang ((drmHandleEvent [1] ?s)\<lparr>pending := []\<rparr>)"
    using swapBuffers_demultiplexes [OF h(1) h(2) h(3) h(4), of demo_kernel] by blast
  then have hang: "swapBuffers demo_kernel 0 ?s = Hang ((drmHandleEvent [1] ?s)\<lparr>pending := []\<rparr>)"
    by simp
  show ?thesis
    unfolding hang using h rot by simp
qed

section \<open>Flip requests in flight\<close>

lemma in_flight_Nil [simp]: "in_flight i [] = 0"
  by (simp add: in_flight_def)

lemma in_flight_snoc [simp]: "in_flight i (t @ [a]) = flight_step i a (in_flight i t)"
  by (simp add: in_flight_def)

lemma one_in_flight_Nil [simp]: "one_in_flight i []"
  by (simp add: one_in_flight_def)

lemma one_in_flight_snoc:
  "one_in_flight i (t @ [a]) \<longleftrightarrow> one_in_flight i t \<and> flight_step i a (in_flight i t) \<le> Suc 0"
  by (auto simp add: one_in_flight_def)

lemma one_in_flight_bound: "one_in_flight i t \<Longrightarrow> in_flight i t \<le> Suc 0"
  by (simp add: one_in_flight_def)

lemma flight_step_quiet [simp]: "quiet a \<Longrightarrow> flight_step i a c = c"
  by (cases a) simp_all

lemma in_flight_quiet: "list_all quiet as \<Longrightarrow> in_flight i (t @ as) = in_flight i t"
proof (induction as rule: rev_induct)
  case Nil
  show ?case by simp
next
  case (snoc a as)
  then show ?case
    by (simp add: append_assoc [symmetric] del: append_assoc)
qed

lemma one_in_flight_quiet:
  "list_all quiet as \<Longrightarrow> one_in_flight i (t @ as) = one_in_flight i t"
proof (induction as rule: rev_induct)
  case Nil
  show ?case by simp
next
  case (snoc a as)
  have "one_in_flight i ((t @ as) @ [a])
          \<longleftrightarrow> one_in_flight i (t @ as) \<and> flight_step i a (in_flight i (t @ as)) \<le> Suc 0"
    by (rule one_in_flight_snoc)
  also have "\<dots> \<longleftrightarrow> one_in_flight i t"
    using snoc one_in_flight_bound [of i t] by (auto simp add: in_flight_quiet)
  finally show ?case by simp
qed

lemma flight_inv_emit:
  "list_all quiet as \<Longrightarrow> flight_inv i (emit as s) = flight_inv i s"
  by (simp add: flight_inv_def one_in_flight_quiet in_flight_quiet)

lemma waiting_inv_emit:
  "list_all quiet as \<Longrightarrow> waiting_inv i k (emit as s) = waiting_inv i k s"
  by (simp add: waiting_inv_def one_in_flight_quiet in_flight_quiet)

lemma trace_pageFlipHandler:
  "trace (pageFlipHandler u s) = trace s @ (if u < length (m_outputs s) then [FlipEvent u] else [])"
  by (simp add: pageFlipHandler_def Let_def)

lemma flight_inv_pageFlipHandler:
  assumes "flight_inv i s"
  shows "flight_inv i (pageFlipHandler u s)"
proof (cases "u < length (m_outputs s)")
  case True
  have fl: "flipped (m_outputs (pageFlipHandler u s) ! i) = flipped (m_outputs s ! i)"
    using same_frame_pageFlipHandler [of s u] by (simp add: same_frame_def)
  have le: "flight_step i (FlipEvent u) (in_flight i (trace s)) \<le> in_flight i (trace s)"
    by simp
  show ?thesis
    using assms True le one_in_flight_bound [of i "trace s"]
    by (auto simp add: flight_inv_def trace_pageFlipHandler one_in_flight_snoc fl)
next
  case False
  then show ?thesis using assms by (simp add: pageFlipHandler_beyond)
qed

lemma waiting_inv_pageFlipHandler:
  assumes "waiting_inv i k s"
  shows "waiting_inv i k (pageFlipHandler u s)"
proof (cases "u < length (m_outputs s)")
  case True
  show ?thesis
  proof (cases "u = i")
    case same: True
    have "in_flight i (trace s) \<le> 1"
      using assms by (simp add: waiting_inv_def one_in_flight_bound)
    then show ?thesis
      using assms True same by (simp add: waiting_inv_def trace_pageFlipHandler one_in_flight_snoc)
  next
    case other: False
    then show ?thesis
      using assms True one_in_flight_bound [of i "trace s"]
      by (auto simp add: waiting_inv_def trace_pageFlipHandler one_in_flight_snoc
          pageFlipHandler_other)
  qed
next
  case False
  then show ?thesis using assms by (simp add: pageFlipHandler_beyond)
qed

lemma flight_inv_drmHandleEvent:
  "flight_inv i s \<Longrightarrow> flight_inv i (drmHandleEvent batch s)"
proof -
  have "flight_inv i s \<Longrightarrow> flight_inv i (fold pageFlipHandler batch s)" for s
    by (induction batch arbitrary: s) (simp_all add: flight_inv_pageFlipHandler)
  then show "flight_inv i s \<Longrightarrow> flight_inv i (drmHandleEvent batch s)"
    by (simp add: drmHandleEvent_def flight_inv_emit)
qed

lemma waiting_inv_drmHandleEvent:
  "waiting_inv i k s \<Longrightarrow> waiting_inv i k (drmHandleEvent batch s)"
proof -
  have "waiting_inv i k s \<Longrightarrow> waiting_inv i k (fold pageFlipHandler batch s)" for s
    by (induction batch arbitrary: s) (simp_all add: waiting_inv_pageFlipHandler)
  then show "waiting_inv i k s \<Longrightarrow> waiting_inv i k (drmHandleEvent batch s)"
    by (simp add: drmHandleEvent_def waiting_inv_emit)
qed

lemma flight_inv_pending [simp]: "flight_inv i (s\<lparr>pending := x\<rparr>) = flight_inv i s"
  by (simp add: flight_inv_def)

lemma waiting_inv_pending [simp]: "waiting_inv i k (s\<lparr>pending := x\<rparr>) = waiting_inv i k s"
  by (simp add: waiting_inv_def)

lemma flight_inv_wait_flip:
  "flight_inv i s \<Longrightarrow> flight_inv i (last_world (wait_flip j k evs s))"
  by (induction evs arbitrary: s) (simp_all add: flight_inv_drmHandleEvent)

lemma waiting_inv_wait_flip:
  "waiting_inv i k s \<Longrightarrow> waiting_inv i k (last_world (wait_flip i k evs s))"
  by (induction evs arbitrary: s) (simp_all add: waiting_inv_drmHandleEvent)

lemma one_in_flight_snoc2:
  "one_in_flight i (t @ [a, b])
     \<longleftrightarrow> one_in_flight i (t @ [a]) \<and> flight_step i b (flight_step i a (in_flight i t)) \<le> Suc 0"
  using one_in_flight_snoc [of i "t @ [a]" b] by simp

lemma in_flight_snoc2: "in_flight i (t @ [a, b]) = flight_step i b (flight_step i a (in_flight i t))"
  using in_flight_snoc [of i "t @ [a]" b] by simp

lemma flight_inv_page_flip_other:
  "j \<noteq> i \<Longrightarrow> flight_inv i s \<Longrightarrow> flight_inv i (page_flip K j s)"
  using one_in_flight_bound [of i "trace s"]
  by (auto simp add: page_flip_def Let_def flight_inv_def one_in_flight_snoc one_in_flight_snoc2
      in_flight_snoc2)

lemma flight_inv_page_flip_self:
  "flight_inv i s \<Longrightarrow> in_flight i (trace s) = 0 \<Longrightarrow> flipped (m_outputs s ! i) \<Longrightarrow>
   flight_inv i (page_flip K i s)"
  by (auto simp add: page_flip_def Let_def flight_inv_def one_in_flight_snoc one_in_flight_snoc2
      in_flight_snoc2)

lemma last_world_run_bind:
  "last_world (run_bind r f) = (case r of Done x \<Rightarrow> last_world (f x) | Hang s \<Rightarrow> s)"
  by (cases r) simp_all

lemma length_swapBuffers:
  "length (m_outputs (last_world (swapBuffers K j s))) = length (m_outputs s)"
proof (cases "flipped (m_outputs s ! j)")
  case True
  have "same_frame s (last_world (wait_flip j (backFb (m_outputs s ! j)) (pending s) s))"
    by (rule same_frame_wait_flip)
  then show ?thesis
    using True
    by (cases "wait_flip j (backFb (m_outputs s ! j)) (pending s) s")
      (simp_all add: swapBuffers_flipped same_frame_def)
next
  case False
  then show ?thesis by (simp add: swapBuffers_first)
qed

lemma flight_inv_swapBuffers:
  assumes "flight_inv i s" and "j < length (m_outputs s)"
  shows "flight_inv i (last_world (swapBuffers K j s))"
proof (cases "flipped (m_outputs s ! j)")
  case False
  let ?s2 = "s\<lparr>m_outputs := (m_outputs s)[j := (m_outputs s ! j)\<lparr>flipped := True\<rparr>]\<rparr>"
  show ?thesis
  proof (cases "j = i")
    case True
    have "flight_inv i ?s2" and "in_flight i (trace ?s2) = 0" and "flipped (m_outputs ?s2 ! i)"
      using assms False True by (simp_all add: flight_inv_def)
    then have "flight_inv i (page_flip K i ?s2)"
      by (rule flight_inv_page_flip_self)
    then show ?thesis
      using False True by (simp add: swapBuffers_first)
  next
    case other: False
    have "flight_inv i ?s2"
      using assms other by (simp add: flight_inv_def)
    then have "flight_inv i (page_flip K j ?s2)"
      by (rule flight_inv_page_flip_other [OF other])
    then show ?thesis
      using False by (simp add: swapBuffers_first)
  qed
next
  case True
  let ?k = "backFb (m_outputs s ! j)"
  let ?r = "wait_flip j ?k (pending s) s"
  have sw: "last_world (swapBuffers K j s)
      = (case ?r of Done s1 \<Rightarrow> page_flip K j s1 | Hang s1 \<Rightarrow> s1)"
    using True by (cases ?r) (simp_all add: swapBuffers_flipped)
  show ?thesis
  proof (cases "j = i")
    case other: False
    have "flight_inv i (last_world ?r)"
      using assms(1) by (rule flight_inv_wait_flip)
    then show ?thesis
      by (cases ?r) (simp_all add: sw flight_inv_page_flip_other [OF other])
  next
    case same: True
    have "waiting_inv i ?k s"
      using assms(1) same by (simp add: flight_inv_def waiting_inv_def)
    then have w: "waiting_inv i ?k (last_world (wait_flip i ?k (pending s) s))"
      by (rule waiting_inv_wait_flip)
    have fl: "flipped (m_outputs (last_world ?r) ! i)"
      using same_frame_wait_flip [of s j ?k "pending s"] True same by (simp add: same_frame_def)
    show ?thesis
    proof (cases ?r)
      case (Hang s1)
      then show ?thesis
        using w fl same sw by (simp add: flight_inv_def waiting_inv_def)
    next
      case (Done s1)
      have "backFb (m_outputs s1 ! j) \<noteq> ?k"
        using Done by (rule wait_flip_Done_rotated)
      then have "flight_inv i s1" and "in_flight i (trace s1) = 0" and "flipped (m_outputs s1 ! i)"
        using w fl same Done by (simp_all add: flight_inv_def waiting_inv_def)
      then have "flight_inv i (page_flip K i s1)"
        by (rule flight_inv_page_flip_self)
      then show ?thesis
        using Done same sw by simp
    qed
  qed
qed

section \<open>The frame driver keeps the invariant\<close>

lemma flight_inv_colours [simp]:
  "flight_inv i (s\<lparr>m_r := r, m_g := g, m_b := b\<rparr>) = flight_inv i s"
  by (simp add: flight_inv_def)

lemma length_update_output:
  "length (m_outputs (last_world (update_output K j s))) = length (m_outputs s)"
  by (simp add: update_output_def Let_def length_swapBuffers)

lemma flight_inv_update_output:
  "flight_inv i s \<Longrightarrow> j < length (m_outputs s) \<Longrightarrow>
   flight_inv i (last_world (update_output K j s))"
  by (simp add: update_output_def Let_def flight_inv_swapBuffers flight_inv_emit)

lemma flight_inv_update_loop:
  "flight_inv i s \<Longrightarrow> \<forall>j \<in> set js. j < length (m_outputs s) \<Longrightarrow>
   flight_inv i (last_world (update_loop K js s))
   \<and> length (m_outputs (last_world (update_loop K js s))) = length (m_outputs s)"
proof (induction js arbitrary: s)
  case Nil
  then show ?case by simp
next
  case (Cons j js)
  have inv: "flight_inv i (last_world (update_output K j s))"
    using Cons.prems by (simp add: flight_inv_update_output)
  have len: "length (m_outputs (last_world (update_output K j s))) = length (m_outputs s)"
    by (rule length_update_output)
  show ?case
  proof (cases "update_output K j s")
    case (Hang s1)
    then show ?thesis using inv len by simp
  next
    case (Done s1)
    then show ?thesis
      using Cons.IH [of s1] Cons.prems(2) inv len by simp
  qed
qed

lemma flight_inv_update:
  "flight_inv i s \<Longrightarrow>
   flight_inv i (last_world (update K s))
   \<and> length (m_outputs (last_world (update K s))) = length (m_outputs s)"
  by (simp add: update_def flight_inv_update_loop)

lemma flight_inv_timeouts:
  "flight_inv i s \<Longrightarrow> flight_inv i (last_world (timeouts K n s))"
proof (induction n arbitrary: s)
  case 0
  then show ?case by simp
next
  case (Suc n)
  show ?case
  proof (cases "update K s")
    case (Hang s1)
    then show ?thesis using flight_inv_update [OF Suc.prems, of K] by simp
  next
    case (Done s1)
    then show ?thesis
      using flight_inv_update [OF Suc.prems, of K] Suc.IH [of s1] by simp
  qed
qed

section \<open>The slot index stays in bounds\<close>

lemma slots_ok_nth:
  "slots_ok s \<longleftrightarrow>
     (\<forall>k < length (m_outputs s).
        slot_ok (m_outputs s ! k) \<and> length (fbs (m_outputs s ! k)) = nat BUFFER_COUNT)"
  by (simp add: slots_ok_def list_all_length)

lemma slots_ok_emit [simp]: "slots_ok (emit as s) = slots_ok s"
  by (simp add: slots_ok_def)

lemma slots_ok_pending [simp]: "slots_ok (s\<lparr>pending := x\<rparr>) = slots_ok s"
  by (simp add: slots_ok_def)

lemma slots_ok_colours [simp]: "slots_ok (s\<lparr>m_r := r, m_g := g, m_b := b\<rparr>) = slots_ok s"
  by (simp add: slots_ok_def)

lemma slots_ok_fd [simp]: "slots_ok (s\<lparr>fd_valid := x\<rparr>) = slots_ok s"
  by (simp add: slots_ok_def)

lemma slots_ok_update:
  assumes "slots_ok s"
    and "\<And>out. slot_ok out \<and> length (fbs out) = nat BUFFER_COUNT \<Longrightarrow>
           slot_ok (g out) \<and> length (fbs (g out)) = nat BUFFER_COUNT"
  shows "slots_ok (s\<lparr>m_outputs := (m_outputs s)[i := g (m_outputs s ! i)]\<rparr>)"
proof -
  have "slot_ok ((m_outputs s)[i := g (m_outputs s ! i)] ! k)
      \<and> length (fbs ((m_outputs s)[i := g (m_outputs s ! i)] ! k)) = nat BUFFER_COUNT"
    if "k < length (m_outputs s)" for k
    using that assms by (cases "k = i") (simp_all add: slots_ok_nth)
  then show ?thesis
    by (simp add: slots_ok_nth)
qed

lemma slots_ok_set_fb: "slots_ok s \<Longrightarrow> slots_ok (set_fb i b f s)"
  unfolding set_fb_def
  by (rule slots_ok_update [where g = "\<lambda>out. out\<lparr>fbs := (fbs out)[b := f]\<rparr>"])
    (simp_all add: slot_ok_def)

lemma slots_ok_same_frame:
  assumes "slots_ok s" and "same_frame s s'"
    and "\<And>k. slot_ok (m_outputs s ! k) \<Longrightarrow> slot_ok (m_outputs s' ! k)"
  shows "slots_ok s'"
  using assms by (simp add: slots_ok_nth same_frame_def)

lemma slots_ok_wait_flip: "slots_ok s \<Longrightarrow> slots_ok (last_world (wait_flip i k evs s))"
  by (erule slots_ok_same_frame) (simp_all add: same_frame_wait_flip slot_ok_wait_flip)

lemma slots_ok_page_flip [simp]: "slots_ok (page_flip K i s) = slots_ok s"
  by (simp add: slots_ok_def)

lemma slots_ok_swapBuffers: "slots_ok s \<Longrightarrow> slots_ok (last_world (swapBuffers K i s))"
proof (cases "flipped (m_outputs s ! i)")
  case True
  assume "slots_ok s"
  then have "slots_ok (last_world (wait_flip i (backFb (m_outputs s ! i)) (pending s) s))"
    by (rule slots_ok_wait_flip)
  then show ?thesis
    using True
    by (cases "wait_flip i (backFb (m_outputs s ! i)) (pending s) s")
      (simp_all add: swapBuffers_flipped)
next
  case False
  assume "slots_ok s"
  then have "slots_ok (s\<lparr>m_outputs := (m_outputs s)[i := (m_outputs s ! i)\<lparr>flipped := True\<rparr>]\<rparr>)"
    by (rule slots_ok_update [where g = "\<lambda>out. out\<lparr>flipped := True\<rparr>"]) (simp add: slot_ok_def)
  then show ?thesis
    using False by (simp add: swapBuffers_first)
qed

lemma slots_ok_update_output: "slots_ok s \<Longrightarrow> slots_ok (last_world (update_output K i s))"
  by (simp add: update_output_def Let_def slots_ok_swapBuffers)

lemma slots_ok_update_loop: "slots_ok s \<Longrightarrow> slots_ok (last_world (update_loop K js s))"
proof (induction js arbitrary: s)
  case Nil
  then show ?case by simp
next
  case (Cons j js)
  have "slots_ok (last_world (update_output K j s))"
    using Cons.prems by (rule slots_ok_update_output)
  then show ?case
    using Cons.IH by (cases "update_output K j s") simp_all
qed

lemma slots_ok_timeouts: "slots_ok s \<Longrightarrow> slots_ok (last_world (timeouts K n s))"
proof (induction n arbitrary: s)
  case 0
  then show ?case by simp
next
  case (Suc n)
  have "slots_ok (last_world (update K s))"
    using Suc.prems by (simp add: update_def slots_ok_update_loop)
  then show ?case
    using Suc.IH by (cases "update K s") simp_all
qed

section \<open>Start-up: allocation and mode setting\<close>

lemma m_outputs_set_fb_length [simp]:
  "length (m_outputs (set_fb i b f s)) = length (m_outputs s)"
  by (simp add: set_fb_def)

lemma length_createFramebuffer [simp]:
  "length (m_outputs (snd (createFramebuffer K i b s))) = length (m_outputs s)"
  by (simp add: createFramebuffer_def Let_def split: option.splits prod.splits)

lemma quiet_createFramebuffer:
  "list_all quiet (trace s) \<Longrightarrow> list_all quiet (trace (snd (createFramebuffer K i b s)))"
  by (simp add: createFramebuffer_def Let_def split: option.splits prod.splits)

lemma slots_ok_createFramebuffer:
  "slots_ok s \<Longrightarrow> slots_ok (snd (createFramebuffer K i b s))"
  by (simp add: createFramebuffer_def Let_def slots_ok_set_fb split: option.splits prod.splits)

lemma create_slots_keeps:
  "list_all quiet (trace s) \<Longrightarrow> slots_ok s \<Longrightarrow>
   list_all quiet (trace (snd (create_slots K i bs s))) \<and> slots_ok (snd (create_slots K i bs s))
   \<and> length (m_outputs (snd (create_slots K i bs s))) = length (m_outputs s)"
proof (induction bs arbitrary: s)
  case Nil
  then show ?case by simp
next
  case (Cons b bs)
  obtain ok s1 where c: "createFramebuffer K i b s = (ok, s1)"
    by (cases "createFramebuffer K i b s")
  have s1: "list_all quiet (trace s1)" "slots_ok s1" "length (m_outputs s1) = length (m_outputs s)"
    using quiet_createFramebuffer [OF Cons.prems(1), of K i b]
      slots_ok_createFramebuffer [OF Cons.prems(2), of K i b]
      length_createFramebuffer [of K i b s] c by simp_all
  show ?case
    using s1 Cons.IH [OF s1(1,2)] c by (cases ok) simp_all
qed

lemma createFramebuffers_loop_keeps:
  "list_all quiet (trace s) \<Longrightarrow> slots_ok s \<Longrightarrow>
   list_all quiet (trace (createFramebuffers_loop K js s)) \<and> slots_ok (createFramebuffers_loop K js s)
   \<and> length (m_outputs (createFramebuffers_loop K js s)) = length (m_outputs s)"
proof (induction js arbitrary: s)
  case Nil
  then show ?case by simp
next
  case (Cons j js)
  obtain ok s1 where c: "create_slots K j [0..<nat BUFFER_COUNT] s = (ok, s1)"
    by (cases "create_slots K j [0..<nat BUFFER_COUNT] s")
  have s1: "list_all quiet (trace s1)" "slots_ok s1" "length (m_outputs s1) = length (m_outputs s)"
    using create_slots_keeps [OF Cons.prems, of K j "[0..<nat BUFFER_COUNT]"] c by simp_all
  let ?s2 = "s1\<lparr>m_outputs := (m_outputs s1)[j := (m_outputs s1 ! j)\<lparr>backFb := 0, flipped := False\<rparr>]\<rparr>"
  have s2: "list_all quiet (trace ?s2)" "slots_ok ?s2" "length (m_outputs ?s2) = length (m_outputs s)"
    using s1 slots_ok_update [OF s1(2), where g = "\<lambda>out. out\<lparr>backFb := 0, flipped := False\<rparr>" and i = j]
    by (simp_all add: slot_ok_def)
  show ?case
    using s1 s2 Cons.IH [OF s2(1,2)] c by (cases ok) simp_all
qed

lemma setMode_loop_keeps:
  "list_all quiet (trace s) \<Longrightarrow> slots_ok s \<Longrightarrow>
   list_all quiet (trace (setMode_loop K js s)) \<and> slots_ok (setMode_loop K js s)
   \<and> length (m_outputs (setMode_loop K js s)) = length (m_outputs s)"
proof (induction js arbitrary: s)
  case Nil
  then show ?case by simp
next
  case (Cons j js)
  let ?k = "kmsOutput (m_outputs s ! j)"
  let ?s1 = "emit [SetCrtc (crtc_id ?k) (fb (fbs (m_outputs s ! j) ! 0)) (connector_id ?k)
                     (k_set_crtc K (trace s) = 0),
                   SetPowerOn j]
               (s\<lparr>m_outputs := (m_outputs s)
                     [j := (m_outputs s ! j)\<lparr>kmsOutput := ?k\<lparr>mode_set := True\<rparr>\<rparr>]\<rparr>)"
  have s1: "list_all quiet (trace ?s1)" "slots_ok ?s1" "length (m_outputs ?s1) = length (m_outputs s)"
    using Cons.prems
      slots_ok_update [OF Cons.prems(2),
        where g = "\<lambda>out. out\<lparr>kmsOutput := (kmsOutput out)\<lparr>mode_set := True\<rparr>\<rparr>" and i = j]
    by (simp_all add: slot_ok_def)
  show ?case
    using Cons.prems Cons.IH [OF s1(1,2)] s1(3) by (simp add: Let_def)
qed

lemma createScreens_keeps:
  "slots_ok s \<Longrightarrow> slots_ok (createScreens discovered s)
     \<and> trace (createScreens discovered s) = trace s
     \<and> length (m_outputs (createScreens discovered s)) = length (m_outputs s) + length discovered"
  unfolding createScreens_def
  by (induction discovered arbitrary: s)
    (simp_all add: createScreen_def slots_ok_def Output0_def slot_ok_def BUFFER_COUNT_def)

lemma open_device_keeps:
  "list_all quiet (trace s) \<Longrightarrow> slots_ok s \<Longrightarrow>
   list_all quiet (trace (snd (open_device K s))) \<and> slots_ok (snd (open_device K s))
   \<and> m_outputs (snd (open_device K s)) = m_outputs s"
  by (simp add: open_device_def)

lemma world0_fresh: "list_all quiet (trace (world0 events)) \<and> slots_ok (world0 events)"
  by (simp add: world0_def slots_ok_def)

lemma DumbBufferRenderer_keeps:
  "list_all quiet (trace (snd (DumbBufferRenderer K discovered (world0 events))))
   \<and> slots_ok (snd (DumbBufferRenderer K discovered (world0 events)))"
proof -
  obtain ok s1 where o: "open_device K (world0 events) = (ok, s1)"
    by (cases "open_device K (world0 events)")
  have s1: "list_all quiet (trace s1)" "slots_ok s1"
    using open_device_keeps [of "world0 events" K] world0_fresh [of events] o by simp_all
  let ?s2 = "createScreens discovered s1"
  have s2: "list_all quiet (trace ?s2)" "slots_ok ?s2"
    using createScreens_keeps [OF s1(2), of discovered] s1(1) by simp_all
  let ?s3 = "createFramebuffers K ?s2"
  have s3: "list_all quiet (trace ?s3)" "slots_ok ?s3"
    using createFramebuffers_loop_keeps [OF s2] by (simp_all add: createFramebuffers_def)
  have "list_all quiet (trace (setMode K ?s3))" "slots_ok (setMode K ?s3)"
    using setMode_loop_keeps [OF s3] by (simp_all add: setMode_def)
  then show ?thesis
    using s1 o by (cases ok) (simp_all add: DumbBufferRenderer_def)
qed

section \<open>The whole run\<close>

lemma flight_inv_fresh:
  assumes "list_all quiet (trace s)" and "i < length (m_outputs s)"
  shows "flight_inv i s"
  using assms one_in_flight_quiet [of "trace s" i "[]"] in_flight_quiet [of "trace s" i "[]"]
  by (simp add: flight_inv_def)

text \<open>
  C2. In the log of the program, from the construction of the renderer through any number
  of timer ticks, for every kernel and every delivery of events, and at every point of the
  log: at most one accepted flip request of an output is without its completion event.
  A second request for the output is therefore never submitted before the completion
  event of the one before it has been handled; where no such event arrives,
  \<^verbatim>\<open>swapBuffers\<close> blocks and submits nothing.
\<close>

theorem one_flip_in_flight:
  assumes "i < length (m_outputs (snd (DumbBufferRenderer K discovered (world0 events))))"
  shows "one_in_flight i
           (trace (last_world (timeouts K n (snd (DumbBufferRenderer K discovered (world0 events))))))"
proof -
  let ?s = "snd (DumbBufferRenderer K discovered (world0 events))"
  have "list_all quiet (trace ?s)"
    using DumbBufferRenderer_keeps [of K discovered events] by simp
  then have "flight_inv i ?s"
    using assms by (rule flight_inv_fresh)
  then have "flight_inv i (last_world (timeouts K n ?s))"
    by (rule flight_inv_timeouts)
  then show ?thesis
    by (simp add: flight_inv_def)
qed

theorem one_flip_in_flight_witness:
  "0 < length (m_outputs (snd (DumbBufferRenderer demo_kernel [demo_kms] (world0 [[0]]))))
   \<and> one_in_flight 0
       (trace (last_world (timeouts demo_kernel 2
          (snd (DumbBufferRenderer demo_kernel [demo_kms] (world0 [[0]]))))))
   \<and> in_flight 0
       (trace (last_world (timeouts demo_kernel 2
          (snd (DumbBufferRenderer demo_kernel [demo_kms] (world0 [[0]])))))) = 1"
proof -
  have h: "0 < length (m_outputs (snd (DumbBufferRenderer demo_kernel [demo_kms] (world0 [[0]]))))"
    by code_simp
  have v: "in_flight 0
       (trace (last_world (timeouts demo_kernel 2
          (snd (DumbBufferRenderer demo_kernel [demo_kms] (world0 [[0]])))))) = 1"
    by code_simp
  show ?thesis
    using one_flip_in_flight [OF h, of 2] h v by simp
qed

text \<open>
  C10. \<^verbatim>\<open>backFb\<close> starts at 0, and in every state that the program reaches from the
  construction of the renderer through any number of timer ticks (the state where a call
  blocks included) every output has \<^verbatim>\<open>backFb\<close> at 0 or 1 and its two framebuffers, so that
  \<^verbatim>\<open>output.fb[output.backFb]\<close> is inside the array.
\<close>

theorem backFb_in_bounds:
  "backFb (Output0 k) = 0
   \<and> (\<forall>out \<in> set (m_outputs (last_world (timeouts K n
                  (snd (DumbBufferRenderer K discovered (world0 events)))))).
        (backFb out = 0 \<or> backFb out = 1) \<and> length (fbs out) = 2
        \<and> 0 \<le> backFb out \<and> nat (backFb out) < length (fbs out))"
proof -
  let ?s = "snd (DumbBufferRenderer K discovered (world0 events))"
  have "slots_ok ?s"
    using DumbBufferRenderer_keeps [of K discovered events] by simp
  then have "slots_ok (last_world (timeouts K n ?s))"
    by (rule slots_ok_timeouts)
  then show ?thesis
    by (auto simp add: slots_ok_def list_all_iff slot_ok_def BUFFER_COUNT_def Output0_def)
qed

theorem backFb_in_bounds_witness:
  "length (m_outputs (last_world (timeouts demo_kernel 2
       (snd (DumbBufferRenderer demo_kernel [demo_kms] (world0 [[0]])))))) = 1
   \<and> backFb (m_outputs (last_world (timeouts demo_kernel 2
       (snd (DumbBufferRenderer demo_kernel [demo_kms] (world0 [[0]]))))) ! 0) = 1
   \<and> length (fbs (m_outputs (last_world (timeouts demo_kernel 2
       (snd (DumbBufferRenderer demo_kernel [demo_kms] (world0 [[0]]))))) ! 0)) = 2"
proof -
  let ?r = "last_world (timeouts demo_kernel 2
       (snd (DumbBufferRenderer demo_kernel [demo_kms] (world0 [[0]]))))"
  have v: "length (m_outputs ?r) = 1" "backFb (m_outputs ?r ! 0) = 1"
    by code_simp+
  then have "m_outputs ?r ! 0 \<in> set (m_outputs ?r)"
    by simp
  then show ?thesis
    using backFb_in_bounds [of demo_kms demo_kernel 2 "[demo_kms]" "[[0]]"] v by blast
qed

section \<open>The exit code\<close>

text \<open>
  C6, as the code has it. \<^verbatim>\<open>main\<close> returns what \<^verbatim>\<open>app.exec()\<close> returns, and the only
  thing that ends the event loop is \<^verbatim>\<open>QCoreApplication::quit\<close>: whenever \<^verbatim>\<open>main\<close> returns,
  the exit code is 0, whatever failed before.
\<close>

theorem main_exit_code:
  assumes "exit_code (main K discovered n events) = Some code"
  shows "code = 0"
proof -
  obtain started s where r: "DumbBufferRenderer K discovered (world0 events) = (started, s)"
    by (cases "DumbBufferRenderer K discovered (world0 events)")
  show ?thesis
  proof (cases started)
    case True
    then show ?thesis
      using assms r by (cases "timeouts K n s") (simp_all add: main_def app_exec_def)
  next
    case False
    then show ?thesis
      using assms r by (simp add: main_def app_exec_def)
  qed
qed

theorem main_exit_code_witness:
  "exit_code (main demo_kernel [demo_kms] 2 [[0]]) = Some 0"
proof -
  have "exit_code (main demo_kernel [demo_kms] 2 [[0]]) \<noteq> None"
    by code_simp
  then obtain code where c: "exit_code (main demo_kernel [demo_kms] 2 [[0]]) = Some code"
    by blast
  then have "code = 0"
    by (rule main_exit_code)
  then show ?thesis
    using c by simp
qed

text \<open>
  The claim as the specification states it fails: when the device cannot be opened, and
  when the mode cannot be set for any output, the process still exits with code 0.
\<close>

theorem exit_code_total_failure_counterexample:
  "\<not> k_open (demo_kernel\<lparr>k_open := False\<rparr>)
   \<and> exit_code (main (demo_kernel\<lparr>k_open := False\<rparr>) [demo_kms] 2 []) = Some 0
   \<and> exit_code (main (demo_kernel\<lparr>k_set_crtc := (\<lambda>t. - 1)\<rparr>) [demo_kms, demo_kms] 1 [])
       = Some 0
   \<and> exit_code (main (demo_kernel\<lparr>k_set_crtc := (\<lambda>t. - 13)\<rparr>) [demo_kms, demo_kms] 1 [])
       = Some 0"
  by code_simp

section \<open>The log only grows\<close>

lemma prefix_trace_pageFlipHandler: "prefix (trace s) (trace (pageFlipHandler u s))"
  by (simp add: trace_pageFlipHandler)

lemma prefix_trace_fold_handler: "prefix (trace s) (trace (fold pageFlipHandler batch s))"
proof (induction batch arbitrary: s)
  case Nil
  show ?case by simp
next
  case (Cons u batch)
  show ?case
    using prefix_order.trans [OF prefix_trace_pageFlipHandler Cons.IH] by simp
qed

lemma prefix_trace_drmHandleEvent: "prefix (trace s) (trace (drmHandleEvent batch s))"
  using prefix_trace_fold_handler [of "emit [HandleEvent] s" batch]
  by (auto simp add: drmHandleEvent_def dest: append_prefixD)

lemma prefix_trace_wait_flip: "prefix (trace s) (trace (last_world (wait_flip i k evs s)))"
proof (induction evs arbitrary: s)
  case Nil
  show ?case by simp
next
  case (Cons batch evs)
  show ?case
    using prefix_order.trans [OF prefix_trace_drmHandleEvent Cons.IH] by simp
qed

lemma prefix_trace_page_flip: "prefix (trace s) (trace (page_flip K i s))"
  by (simp add: page_flip_def Let_def)

lemma prefix_trace_swapBuffers: "prefix (trace s) (trace (last_world (swapBuffers K i s)))"
proof (cases "flipped (m_outputs s ! i)")
  case True
  let ?r = "wait_flip i (backFb (m_outputs s ! i)) (pending s) s"
  have w: "prefix (trace s) (trace (last_world ?r))"
    by (rule prefix_trace_wait_flip)
  show ?thesis
  proof (cases ?r)
    case (Done s1)
    then show ?thesis
      using True w prefix_order.trans [OF _ prefix_trace_page_flip [of s1 K i]]
      by (simp add: swapBuffers_flipped)
  next
    case (Hang s1)
    then show ?thesis
      using True w by (simp add: swapBuffers_flipped)
  qed
next
  case False
  then show ?thesis
    using prefix_trace_page_flip
      [of "s\<lparr>m_outputs := (m_outputs s)[i := (m_outputs s ! i)\<lparr>flipped := True\<rparr>]\<rparr>" K i]
    by (simp add: swapBuffers_first)
qed

lemma swapBuffers_Done_shape:
  assumes "i < length (m_outputs s)" and "swapBuffers K i s = Done s'"
  obtains s1 where "s' = page_flip K i s1" and "flipped (m_outputs s1 ! i)"
    and "fbs (m_outputs s1 ! i) = fbs (m_outputs s ! i)"
proof (cases "flipped (m_outputs s ! i)")
  case True
  let ?k = "backFb (m_outputs s ! i)"
  obtain s1 where w: "wait_flip i ?k (pending s) s = Done s1" and s': "s' = page_flip K i s1"
    using assms(2) True by (auto simp add: swapBuffers_flipped run_bind_Done_iff)
  have "same_frame s s1"
    using same_frame_wait_flip [of s i ?k "pending s"] w by simp
  then have "flipped (m_outputs s1 ! i)" and "fbs (m_outputs s1 ! i) = fbs (m_outputs s ! i)"
    using True by (simp_all add: same_frame_def)
  then show ?thesis
    using that s' by blast
next
  case False
  let ?s1 = "s\<lparr>m_outputs := (m_outputs s)[i := (m_outputs s ! i)\<lparr>flipped := True\<rparr>]\<rparr>"
  have "s' = page_flip K i ?s1"
    using assms(2) False by (simp add: swapBuffers_first)
  moreover have "flipped (m_outputs ?s1 ! i)" and "fbs (m_outputs ?s1 ! i) = fbs (m_outputs s ! i)"
    using assms(1) by simp_all
  ultimately show ?thesis
    using that by blast
qed

section \<open>A failed allocation\<close>







section \<open>Allocation of a buffer\<close>

lemma get_fb_destroyFramebuffer:
  assumes "i < length (m_outputs s)" and "b < length (fbs (m_outputs s ! i))"
  shows "get_fb i b (destroyFramebuffer K i b s) = Framebuffer0"
  using assms by (simp add: destroyFramebuffer_eq set_fb_emit get_fb_set_fb)

lemma fbs_length_createFramebuffer:
  "length (fbs (m_outputs (snd (createFramebuffer K i b s)) ! k)) = length (fbs (m_outputs s ! k))"
proof -
  have "length (fbs (m_outputs (set_fb i b f s) ! k)) = length (fbs (m_outputs s ! k))" for f s
    by (cases "i < length (m_outputs s)"; cases "k = i")
      (simp_all add: set_fb_def list_update_beyond)
  then show ?thesis
    by (simp add: createFramebuffer_def Let_def set_fb_emit split: option.split prod.split)
qed

lemma createFramebuffer_refused:
  assumes "k_create_dumb K (trace s) = None"
  shows "\<not> fst (createFramebuffer K i b s)"
    and "get_fb i b (snd (createFramebuffer K i b s)) = get_fb i b s"
  using assms by (simp_all add: createFramebuffer_def Let_def)

lemma createFramebuffer_keeps_handle:
  assumes "i < length (m_outputs s)" and "b < length (fbs (m_outputs s ! i))"
    and "k_create_dumb K (trace s) = Some (h, pt, sz)"
  shows "handle (get_fb i b (snd (createFramebuffer K i b s))) = h
       \<and> pitch (get_fb i b (snd (createFramebuffer K i b s))) = pt
       \<and> size (get_fb i b (snd (createFramebuffer K i b s))) = sz"
  by (simp add: createFramebuffer_def Let_def set_fb_emit get_fb_set_fb assms
      split: option.split prod.split)

lemma createFramebuffer_false_unmapped:
  assumes "i < length (m_outputs s)" and "b < length (fbs (m_outputs s ! i))"
    and "p (get_fb i b s) = MAP_FAILED"
  shows "fst (createFramebuffer K i b s)
         \<or> p (get_fb i b (snd (createFramebuffer K i b s))) = MAP_FAILED"
  by (simp add: createFramebuffer_def Let_def set_fb_emit get_fb_set_fb assms
      split: option.split prod.split)

lemma createFramebuffer_true_mapped:
  assumes "i < length (m_outputs s)" and "b < length (fbs (m_outputs s ! i))"
  shows "fst (createFramebuffer K i b s)
         \<longrightarrow> p (get_fb i b (snd (createFramebuffer K i b s))) \<noteq> MAP_FAILED
             \<and> k_create_dumb K (trace s) \<noteq> None"
  by (simp add: createFramebuffer_def Let_def set_fb_emit get_fb_set_fb assms
      split: option.split prod.split)

lemma createFramebuffer_fb:
  assumes "i < length (m_outputs s)" and "b < length (fbs (m_outputs s ! i))"
    and "k_create_dumb K (trace s) = Some (h, pt, sz)"
  shows "fb (get_fb i b (snd (createFramebuffer K i b s)))
           = (if fst (add_fb_answer K i s) = 0 then snd (add_fb_answer K i s)
              else fb (get_fb i b s))"
  by (simp add: createFramebuffer_def add_fb_answer_def Let_def set_fb_emit get_fb_set_fb assms
      split: option.split prod.split)


text \<open>
  C4, as the code has it. \<^verbatim>\<open>destroyFramebuffer\<close> always leaves the buffer torn down, also
  after a failed \<^verbatim>\<open>createFramebuffer\<close>. For \<^verbatim>\<open>createFramebuffer\<close> on a torn-down buffer
  (the kernel's handles and ids being non-zero):
  \<^item> when \<^verbatim>\<open>DRM_IOCTL_MODE_CREATE_DUMB\<close> is refused it returns \<^verbatim>\<open>false\<close> and the buffer is
    still torn down;
  \<^item> once the dumb buffer exists, the buffer holds its handle, pitch and size when the
    call returns, whatever it returns: nothing is undone, and the buffer is not torn down;
  \<^item> when it returns \<^verbatim>\<open>false\<close> the buffer is unmapped, so not fully constructed;
  \<^item> when it returns \<^verbatim>\<open>true\<close> and \<^verbatim>\<open>drmModeAddFB\<close> was accepted, the buffer is fully
    constructed.
\<close>

theorem createFramebuffer_buffer_states:
  assumes "i < length (m_outputs s)" and "b < length (fbs (m_outputs s ! i))"
    and "torn_down (get_fb i b s)"
    and "\<And>t h pt sz. k_create_dumb K t = Some (h, pt, sz) \<Longrightarrow> h \<noteq> 0"
    and "\<And>t. fst (k_add_fb K t) = 0 \<Longrightarrow> snd (k_add_fb K t) \<noteq> 0"
  shows "torn_down (get_fb i b (destroyFramebuffer K i b s))
    \<and> torn_down (get_fb i b (destroyFramebuffer K i b (snd (createFramebuffer K i b s))))
    \<and> (k_create_dumb K (trace s) = None
         \<longrightarrow> \<not> fst (createFramebuffer K i b s)
             \<and> torn_down (get_fb i b (snd (createFramebuffer K i b s))))
    \<and> (k_create_dumb K (trace s) \<noteq> None
         \<longrightarrow> k_create_dumb K (trace s)
               = Some (handle (get_fb i b (snd (createFramebuffer K i b s))),
                       pitch (get_fb i b (snd (createFramebuffer K i b s))),
                       size (get_fb i b (snd (createFramebuffer K i b s))))
             \<and> handle (get_fb i b (snd (createFramebuffer K i b s))) \<noteq> 0
             \<and> \<not> torn_down (get_fb i b (snd (createFramebuffer K i b s))))
    \<and> (\<not> fst (createFramebuffer K i b s)
         \<longrightarrow> p (get_fb i b (snd (createFramebuffer K i b s))) = MAP_FAILED
             \<and> \<not> fully_constructed (get_fb i b (snd (createFramebuffer K i b s))))
    \<and> (fst (createFramebuffer K i b s) \<and> fst (add_fb_answer K i s) = 0
         \<longrightarrow> fully_constructed (get_fb i b (snd (createFramebuffer K i b s))))"
proof -
  let ?r = "createFramebuffer K i b s"
  let ?f = "get_fb i b (snd ?r)"
  have zero: "get_fb i b s = Framebuffer0"
    using assms(3) by (simp add: torn_down_def)
  have unmapped: "p (get_fb i b s) = MAP_FAILED"
    by (simp add: zero Framebuffer0_def)
  have c1: "torn_down (get_fb i b (destroyFramebuffer K i b s))"
    using assms(1,2) by (simp add: torn_down_def get_fb_destroyFramebuffer)
  have c2: "torn_down (get_fb i b (destroyFramebuffer K i b (snd ?r)))"
    using assms(1,2)
    by (simp add: torn_down_def get_fb_destroyFramebuffer fbs_length_createFramebuffer)
  have c3: "\<not> fst ?r \<and> torn_down ?f" if "k_create_dumb K (trace s) = None"
    using createFramebuffer_refused [OF that, of i b] assms(3) by simp
  have kept: "k_create_dumb K (trace s) = Some (handle ?f, pitch ?f, size ?f) \<and> handle ?f \<noteq> 0"
    if created: "k_create_dumb K (trace s) \<noteq> None"
  proof -
    obtain h pt sz where some: "k_create_dumb K (trace s) = Some (h, pt, sz)"
      using created by (cases "k_create_dumb K (trace s)") auto
    show ?thesis
      using createFramebuffer_keeps_handle [OF assms(1,2) some] some assms(4) [OF some] by simp
  qed
  have c4: "k_create_dumb K (trace s) = Some (handle ?f, pitch ?f, size ?f) \<and> handle ?f \<noteq> 0
      \<and> \<not> torn_down ?f" if "k_create_dumb K (trace s) \<noteq> None"
    using kept [OF that] by (auto simp add: torn_down_def Framebuffer0_def)
  have c5: "p ?f = MAP_FAILED \<and> \<not> fully_constructed ?f" if "\<not> fst ?r"
    using createFramebuffer_false_unmapped [OF assms(1,2) unmapped, of K] that
    by (simp add: fully_constructed_def)
  have c7: "fully_constructed ?f" if "fst ?r \<and> fst (add_fb_answer K i s) = 0"
  proof -
    have mapped: "p ?f \<noteq> MAP_FAILED" and created: "k_create_dumb K (trace s) \<noteq> None"
      using createFramebuffer_true_mapped [OF assms(1,2), of K] that by simp_all
    obtain h pt sz where some: "k_create_dumb K (trace s) = Some (h, pt, sz)"
      using created by (cases "k_create_dumb K (trace s)") auto
    have "fb ?f = snd (add_fb_answer K i s)"
      using createFramebuffer_fb [OF assms(1,2) some] that by simp
    then have "fb ?f \<noteq> 0"
      using assms(5) that by (simp add: add_fb_answer_def)
    then show ?thesis
      using mapped kept [OF created] by (simp add: fully_constructed_def)
  qed
  show ?thesis
    using c1 c2 c3 c4 c5 c7 by blast
qed

theorem createFramebuffer_buffer_states_witness:
  "0 < length (m_outputs (demo_fresh [])) \<and> 0 < length (fbs (m_outputs (demo_fresh []) ! 0))
   \<and> torn_down (get_fb 0 0 (demo_fresh []))
   \<and> fst (createFramebuffer steady_kernel 0 0 (demo_fresh []))
   \<and> fst (add_fb_answer steady_kernel 0 (demo_fresh [])) = 0
   \<and> fully_constructed (get_fb 0 0 (snd (createFramebuffer steady_kernel 0 0 (demo_fresh []))))
   \<and> handle (get_fb 0 0 (snd (createFramebuffer steady_kernel 0 0 (demo_fresh [])))) \<noteq> 0
   \<and> torn_down (get_fb 0 0 (destroyFramebuffer steady_kernel 0 0
                  (snd (createFramebuffer steady_kernel 0 0 (demo_fresh [])))))"
proof -
  let ?r = "createFramebuffer steady_kernel 0 0 (demo_fresh [])"
  let ?f = "get_fb 0 0 (snd ?r)"
  have h: "0 < length (m_outputs (demo_fresh []))"
    "0 < length (fbs (m_outputs (demo_fresh []) ! 0))"
    "torn_down (get_fb 0 0 (demo_fresh []))"
    by (simp_all add: demo_fresh_def Output0_def torn_down_def get_fb_def)
  have ok: "fst ?r" and acc: "fst (add_fb_answer steady_kernel 0 (demo_fresh [])) = 0"
    and cr: "k_create_dumb steady_kernel (trace (demo_fresh [])) \<noteq> None"
    by code_simp+
  have "torn_down (get_fb 0 0 (destroyFramebuffer steady_kernel 0 0 (demo_fresh [])))
    \<and> torn_down (get_fb 0 0 (destroyFramebuffer steady_kernel 0 0 (snd ?r)))
    \<and> (k_create_dumb steady_kernel (trace (demo_fresh [])) = None
         \<longrightarrow> \<not> fst ?r \<and> torn_down ?f)
    \<and> (k_create_dumb steady_kernel (trace (demo_fresh [])) \<noteq> None
         \<longrightarrow> k_create_dumb steady_kernel (trace (demo_fresh []))
               = Some (handle ?f, pitch ?f, size ?f)
             \<and> handle ?f \<noteq> 0 \<and> \<not> torn_down ?f)
    \<and> (\<not> fst ?r \<longrightarrow> p ?f = MAP_FAILED \<and> \<not> fully_constructed ?f)
    \<and> (fst ?r \<and> fst (add_fb_answer steady_kernel 0 (demo_fresh [])) = 0
         \<longrightarrow> fully_constructed ?f)"
  proof (rule createFramebuffer_buffer_states)
    show "0 < length (m_outputs (demo_fresh []))"
      and "0 < length (fbs (m_outputs (demo_fresh []) ! 0))"
      and "torn_down (get_fb 0 0 (demo_fresh []))"
      by (fact h)+
    show "h \<noteq> 0" if "k_create_dumb steady_kernel t = Some (h, pt, sz)" for t h pt sz
      using that by (auto simp add: steady_kernel_def)
    show "snd (k_add_fb steady_kernel t) \<noteq> 0" if "fst (k_add_fb steady_kernel t) = 0" for t
      by (simp add: steady_kernel_def)
  qed
  then show ?thesis
    using h ok acc cr by blast
qed

text \<open>
  The statement of the specification fails when \<^verbatim>\<open>DRM_IOCTL_MODE_MAP_DUMB\<close> is refused:
  \<^verbatim>\<open>createFramebuffer\<close> returns \<^verbatim>\<open>false\<close> and leaves the buffer with its allocation handle
  and its presentation handle, unmapped: neither constructed nor torn down.
\<close>

theorem createFramebuffer_partial_counterexample:
  "\<not> fst (createFramebuffer (demo_kernel\<lparr>k_map_dumb := (\<lambda>t. None)\<rparr>) 0 0 (demo_fresh []))
   \<and> handle (get_fb 0 0
        (snd (createFramebuffer (demo_kernel\<lparr>k_map_dumb := (\<lambda>t. None)\<rparr>) 0 0 (demo_fresh [])))) = 1
   \<and> fb (get_fb 0 0
        (snd (createFramebuffer (demo_kernel\<lparr>k_map_dumb := (\<lambda>t. None)\<rparr>) 0 0 (demo_fresh [])))) = 101
   \<and> p (get_fb 0 0
        (snd (createFramebuffer (demo_kernel\<lparr>k_map_dumb := (\<lambda>t. None)\<rparr>) 0 0 (demo_fresh []))))
       = MAP_FAILED
   \<and> \<not> fully_constructed (get_fb 0 0
        (snd (createFramebuffer (demo_kernel\<lparr>k_map_dumb := (\<lambda>t. None)\<rparr>) 0 0 (demo_fresh []))))
   \<and> \<not> torn_down (get_fb 0 0
        (snd (createFramebuffer (demo_kernel\<lparr>k_map_dumb := (\<lambda>t. None)\<rparr>) 0 0 (demo_fresh []))))"
  by code_simp

section \<open>A refused flip request\<close>

lemma in_flight_pageFlipHandler:
  "in_flight i (trace (pageFlipHandler u s)) \<le> in_flight i (trace s)"
  by (simp add: trace_pageFlipHandler)

lemma in_flight_fold_handler:
  "in_flight i (trace (fold pageFlipHandler batch s)) \<le> in_flight i (trace s)"
proof (induction batch arbitrary: s)
  case Nil
  show ?case by simp
next
  case (Cons u batch)
  show ?case
    using order_trans [OF Cons.IH in_flight_pageFlipHandler] by simp
qed

lemma in_flight_drmHandleEvent:
  "in_flight i (trace (drmHandleEvent batch s)) \<le> in_flight i (trace s)"
  using in_flight_fold_handler [of i batch "emit [HandleEvent] s"]
  by (simp add: drmHandleEvent_def)

lemma in_flight_wait_flip:
  "in_flight i (trace (last_world (wait_flip j k evs s))) \<le> in_flight i (trace s)"
proof (induction evs arbitrary: s)
  case Nil
  show ?case by simp
next
  case (Cons batch evs)
  show ?case
    using order_trans [OF Cons.IH in_flight_drmHandleEvent] by simp
qed

lemma in_flight_page_flip_refused:
  "k_page_flip K (trace s) \<noteq> 0 \<Longrightarrow> in_flight i (trace (page_flip K j s)) = in_flight i (trace s)"
  by (simp add: page_flip_def Let_def in_flight_snoc2)

lemma in_flight_swapBuffers_refused:
  assumes "\<And>t. k_page_flip K t \<noteq> 0"
  shows "in_flight i (trace (last_world (swapBuffers K j s))) \<le> in_flight i (trace s)"
proof (cases "flipped (m_outputs s ! j)")
  case True
  let ?r = "wait_flip j (backFb (m_outputs s ! j)) (pending s) s"
  have "in_flight i (trace (last_world ?r)) \<le> in_flight i (trace s)"
    by (rule in_flight_wait_flip)
  then show ?thesis
    using True assms by (cases ?r) (simp_all add: swapBuffers_flipped in_flight_page_flip_refused)
next
  case False
  then show ?thesis
    using assms by (simp add: swapBuffers_first in_flight_page_flip_refused)
qed

text \<open>
  C5, as the code has it. When the kernel refuses the flip request of a \<^verbatim>\<open>swapBuffers\<close>
  call (\<^verbatim>\<open>drmModePageFlip\<close> does not return 0), the call returns with nothing more in
  flight for the output than before, and nothing marks the output as dropped:
  \<^verbatim>\<open>flipped\<close> is set and the buffers are as before. At the next tick, the body of
  \<^verbatim>\<open>update\<close> for this output (with whatever kernel \<open>K'\<close>) writes the buffer at \<^verbatim>\<open>backFb\<close>
  again when it is mapped and calls \<^verbatim>\<open>swapBuffers\<close>, which waits for a completion event
  of the output; when no event arrives any more, the call blocks.
\<close>

theorem swapBuffers_flip_refused:
  assumes "i < length (m_outputs s)" and "\<And>t. k_page_flip K t \<noteq> 0"
    and "swapBuffers K i s = Done s'"
  shows "in_flight i (trace s') \<le> in_flight i (trace s)
    \<and> flipped (m_outputs s' ! i)
    \<and> fbs (m_outputs s' ! i) = fbs (m_outputs s ! i)
    \<and> (p (fbs (m_outputs s' ! i) ! nat (backFb (m_outputs s' ! i))) \<noteq> MAP_FAILED \<longrightarrow>
         update_output K' i s'
           = swapBuffers K' i
               ((emit [Fill (p (fbs (m_outputs s' ! i) ! nat (backFb (m_outputs s' ! i))))
                            (size (fbs (m_outputs s' ! i) ! nat (backFb (m_outputs s' ! i))) div 4)
                            (push_bit 16 (m_r s') OR push_bit 8 (m_g s') OR m_b s')] s')
                  \<lparr>m_r := m_r s' + 1, m_g := m_g s' + 2, m_b := m_b s' + 3\<rparr>)
         \<and> prefix (trace s' @ [Fill (p (fbs (m_outputs s' ! i) ! nat (backFb (m_outputs s' ! i))))
                               (size (fbs (m_outputs s' ! i) ! nat (backFb (m_outputs s' ! i))) div 4)
                               (push_bit 16 (m_r s') OR push_bit 8 (m_g s') OR m_b s')])
             (trace (last_world (update_output K' i s')))
         \<and> (pending s' = [] \<longrightarrow> \<not> returned (update_output K' i s')))"
proof -
  obtain s1 where s': "s' = page_flip K i s1" and fl: "flipped (m_outputs s1 ! i)"
    and fb: "fbs (m_outputs s1 ! i) = fbs (m_outputs s ! i)"
    using assms(1,3) by (rule swapBuffers_Done_shape)
  have nothing: "in_flight i (trace s') \<le> in_flight i (trace s)"
    using in_flight_swapBuffers_refused [of K i i s, OF assms(2)] assms(3) by simp
  have fl': "flipped (m_outputs s' ! i)" and fb': "fbs (m_outputs s' ! i) = fbs (m_outputs s ! i)"
    using fl fb by (simp_all add: s')
  let ?f = "fbs (m_outputs s' ! i) ! nat (backFb (m_outputs s' ! i))"
  let ?fill = "Fill (p ?f) (size ?f div 4) (push_bit 16 (m_r s') OR push_bit 8 (m_g s') OR m_b s')"
  let ?s0 = "(emit [?fill] s')\<lparr>m_r := m_r s' + 1, m_g := m_g s' + 2, m_b := m_b s' + 3\<rparr>"
  have next_tick: "update_output K' i s' = swapBuffers K' i ?s0" if "p ?f \<noteq> MAP_FAILED"
    using that by (simp add: update_output_def Let_def)
  have written: "prefix (trace s' @ [?fill]) (trace (last_world (update_output K' i s')))"
    if "p ?f \<noteq> MAP_FAILED"
    using prefix_trace_swapBuffers [of ?s0 K' i] next_tick [OF that] by simp
  have blocked: "\<not> returned (update_output K' i s')" if "p ?f \<noteq> MAP_FAILED" and "pending s' = []"
    using that fl' by (simp add: next_tick swapBuffers_flipped)
  have tail: "p ?f \<noteq> MAP_FAILED \<longrightarrow>
      update_output K' i s' = swapBuffers K' i ?s0
      \<and> prefix (trace s' @ [?fill]) (trace (last_world (update_output K' i s')))
      \<and> (pending s' = [] \<longrightarrow> \<not> returned (update_output K' i s'))"
  proof (intro impI conjI)
    assume m: "p ?f \<noteq> MAP_FAILED"
    show "update_output K' i s' = swapBuffers K' i ?s0"
      using m by (rule next_tick)
    show "prefix (trace s' @ [?fill]) (trace (last_world (update_output K' i s')))"
      using m by (rule written)
    assume e: "pending s' = []"
    show "\<not> returned (update_output K' i s')"
      using m e by (rule blocked)
  qed
  show ?thesis
    apply (intro conjI)
       apply (fact nothing)
      apply (fact fl')
     apply (fact fb')
    apply (fact tail)
    done
qed

theorem swapBuffers_flip_refused_witness:
  "0 < length (m_outputs (demo_world []))
   \<and> returned (swapBuffers (demo_kernel\<lparr>k_page_flip := (\<lambda>t. - 16)\<rparr>) 0 (demo_world []))
   \<and> in_flight 0 (trace (last_world
        (swapBuffers (demo_kernel\<lparr>k_page_flip := (\<lambda>t. - 16)\<rparr>) 0 (demo_world [])))) = 0
   \<and> flipped (m_outputs (last_world
        (swapBuffers (demo_kernel\<lparr>k_page_flip := (\<lambda>t. - 16)\<rparr>) 0 (demo_world []))) ! 0)
   \<and> \<not> returned (update_output demo_kernel 0 (last_world
        (swapBuffers (demo_kernel\<lparr>k_page_flip := (\<lambda>t. - 16)\<rparr>) 0 (demo_world []))))"
proof -
  let ?K = "demo_kernel\<lparr>k_page_flip := (\<lambda>t. - 16)\<rparr>"
  let ?s' = "last_world (swapBuffers ?K 0 (demo_world []))"
  let ?f = "fbs (m_outputs ?s' ! 0) ! nat (backFb (m_outputs ?s' ! 0))"
  have a: "0 < length (m_outputs (demo_world []))"
    by (simp add: demo_world_def)
  have r: "returned (swapBuffers ?K 0 (demo_world []))"
    by code_simp
  have m: "p ?f \<noteq> MAP_FAILED" and e: "pending ?s' = []"
    and z: "in_flight 0 (trace (demo_world [])) = 0"
    by code_simp+
  have "in_flight 0 (trace ?s') \<le> in_flight 0 (trace (demo_world []))
    \<and> flipped (m_outputs ?s' ! 0)
    \<and> fbs (m_outputs ?s' ! 0) = fbs (m_outputs (demo_world []) ! 0)
    \<and> (p ?f \<noteq> MAP_FAILED \<longrightarrow>
         update_output demo_kernel 0 ?s'
           = swapBuffers demo_kernel 0
               ((emit [Fill (p ?f) (size ?f div 4)
                            (push_bit 16 (m_r ?s') OR push_bit 8 (m_g ?s') OR m_b ?s')] ?s')
                  \<lparr>m_r := m_r ?s' + 1, m_g := m_g ?s' + 2, m_b := m_b ?s' + 3\<rparr>)
         \<and> prefix (trace ?s' @ [Fill (p ?f) (size ?f div 4)
                               (push_bit 16 (m_r ?s') OR push_bit 8 (m_g ?s') OR m_b ?s')])
             (trace (last_world (update_output demo_kernel 0 ?s')))
         \<and> (pending ?s' = [] \<longrightarrow> \<not> returned (update_output demo_kernel 0 ?s')))"
  proof (rule swapBuffers_flip_refused)
    show "0 < length (m_outputs (demo_world []))" by (fact a)
    show "k_page_flip ?K t \<noteq> 0" for t by simp
    show "swapBuffers ?K 0 (demo_world []) = Done ?s'"
      using r by (rule returned_Done)
  qed
  then have le: "in_flight 0 (trace ?s') \<le> in_flight 0 (trace (demo_world []))"
    and fl: "flipped (m_outputs ?s' ! 0)"
    and bl: "\<not> returned (update_output demo_kernel 0 ?s')"
    using m e by blast+
  have none: "in_flight 0 (trace ?s') = 0"
    using le z by simp
  show ?thesis
    by (intro conjI; fact a r none fl bl)
qed

text \<open>
  The statement of the specification fails. Two outputs; the kernel refuses the first
  flip request, that of output 0, and accepts the others; one completion event, for
  output 1, arrives. The log of two ticks, once with the refusal returned as \<^verbatim>\<open>-EBUSY\<close>
  and once as \<^verbatim>\<open>-1\<close>: after the refusal, the second tick writes the buffer of output 0
  again and then blocks in \<^verbatim>\<open>swapBuffers\<close> for output 0, so that output 1 gets no second
  frame.
\<close>

theorem flip_refused_not_dropped_counterexample:
  "trace (last_world (timeouts
       (demo_kernel\<lparr>k_page_flip := (\<lambda>t. if length t = 1 then - 16 else 0)\<rparr>) 2 (demo_world [[1]])))
     = [Fill 20480 1024 0, PageFlip 7 103 0 False,
        Fill 61440 1024 66051, PageFlip 8 113 1 True,
        Fill 20480 1024 132102, HandleEvent, FlipEvent 1]
   \<and> \<not> returned (timeouts
       (demo_kernel\<lparr>k_page_flip := (\<lambda>t. if length t = 1 then - 16 else 0)\<rparr>) 2 (demo_world [[1]]))
   \<and> trace (last_world (timeouts
       (demo_kernel\<lparr>k_page_flip := (\<lambda>t. if length t = 1 then - 1 else 0)\<rparr>) 2 (demo_world [[1]])))
     = [Fill 20480 1024 0, PageFlip 7 103 0 False, Warning ''Page flip failed'',
        Fill 61440 1024 66051, PageFlip 8 113 1 True,
        Fill 20480 1024 132102, HandleEvent, FlipEvent 1]
   \<and> \<not> returned (timeouts
       (demo_kernel\<lparr>k_page_flip := (\<lambda>t. if length t = 1 then - 1 else 0)\<rparr>) 2 (demo_world [[1]]))"
  by code_simp

end
